theory Spec2Isabelle
  imports Complex_Main
begin

section \<open>Server-side gRPC Prometheus metrics: registration of the default metric set\<close>

text \<open>
  The development embeds \<^verbatim>\<open>server.go\<close> of package \<^verbatim>\<open>grpc_prometheus\<close>. The package
  keeps three pieces of process-wide state: the default metric set
  \<^verbatim>\<open>DefaultServerMetrics\<close>, the map \<^verbatim>\<open>defaultServerMetricsPromRegistration\<close> of the
  registerers the default set has been registered with, and the mutex
  \<^verbatim>\<open>defaultServerMetricsPromRegistrationMu\<close> that guards the map. They are the fields of
  the record \<open>world\<close> below, together with the memory of the registries, the values of
  the instruments' series and a log of events. Every function of the package takes the
  world and returns the updated one.
\<close>

subsection \<open>Data\<close>

text \<open>A Go \<^verbatim>\<open>error\<close> value is represented by its message; \<^verbatim>\<open>nil\<close> is \<open>None\<close>.\<close>

type_synonym error = string

text \<open>
  The fields of \<^verbatim>\<open>ServerMetrics\<close> that \<^verbatim>\<open>server.go\<close> reads. The type \<open>'c\<close> is the
  identity of an instrument (a pointer to a \<^verbatim>\<open>prom.CounterVec\<close> or a
  \<^verbatim>\<open>prom.HistogramVec\<close>, handed to the registerer as a \<^verbatim>\<open>prom.Collector\<close>). The
  histogram pointer may be \<^verbatim>\<open>nil\<close>.
\<close>

record 'c ServerMetrics =
  serverStartedCounter :: 'c
  serverHandledCounter :: 'c
  serverStreamMsgReceived :: 'c
  serverStreamMsgSent :: 'c
  serverHandledHistogramEnabled :: bool
  serverHandledHistogram :: "'c option"

text \<open>
  A call of a method, or an index into a map, either returns a value or panics.
\<close>

datatype 'a outcome = Returns 'a | Panics

text \<open>
  The interface \<^verbatim>\<open>prom.Registerer\<close>, as far as the package uses it: the two methods
  \<^verbatim>\<open>Register(Collector) error\<close> and \<^verbatim>\<open>Unregister(Collector) bool\<close>. A method reads and
  updates the memory \<open>'h\<close> that the registries live in, and it may panic instead of
  returning (a method called on a \<^verbatim>\<open>nil\<close> registerer does). Registerer values are named
  by keys of type \<open>'r\<close> (the keys of the Go map); a parameter \<open>impl\<close> gives every key its
  methods, so two different keys may well share one underlying registry. The field
  \<open>Registerer_hashable\<close> says whether the dynamic type of the value is comparable, so that
  Go can hash it as a key of a map.
\<close>

record ('c, 'h) Registerer =
  Registerer_hashable :: bool
  Registerer_Register :: "'c \<Rightarrow> 'h \<Rightarrow> error option outcome \<times> 'h"
  Registerer_Unregister :: "'c \<Rightarrow> 'h \<Rightarrow> bool outcome \<times> 'h"

text \<open>
  A log of what a call does to the mutex, to the registration map and to the registerer,
  in program order. A registerer call that returned is logged with the value it
  returned, a panic is logged as such.
\<close>

datatype ('r, 'c) event =
    MuLock
  | MuUnlock
  | MapLookup 'r bool
  | MapStore 'r
  | RegisterCall 'r 'c "error option"
  | UnregisterCall 'r 'c bool
  | MapLookupPanic 'r
  | RegisterPanic 'r 'c
  | UnregisterPanic 'r 'c

text \<open>
  The label tuple of one series of an instrument: the call labels, and for the handled
  counter the status code as well (a status code is represented by its name).
\<close>

datatype CallType = Unary | ClientStream | ServerStream | BidiStream

record CallLabels =
  call_type :: CallType
  service :: string
  method_name :: string

type_synonym StatusCode = string

type_synonym seriesKey = "CallLabels \<times> StatusCode option"

record ('r, 'c, 'h) world =
  DefaultServerMetrics :: "'c ServerMetrics"
  defaultServerMetricsPromRegistration :: "'r \<rightharpoonup> unit"
  defaultServerMetricsPromRegistrationMu :: bool
  registryHeap :: 'h
  metricSeries :: "'c \<Rightarrow> seriesKey \<rightharpoonup> nat"
  trace :: "('r, 'c) event list"

text \<open>
  A call that does not return. \<^verbatim>\<open>Lock\<close> on a mutex that is held blocks (for ever, when
  no other goroutine runs); \<^verbatim>\<open>Unlock\<close> of a mutex that is not held is a fatal error of
  the Go runtime; a panic leaves the function with the world as it is at that moment,
  after the deferred function, if it was installed, has run.
\<close>

datatype ('r, 'c, 'h) fault =
    Deadlock
  | UnlockOfUnlockedMutex
  | Panic "('r, 'c, 'h) world"

subsection \<open>The mutex\<close>

definition Lock :: "('r, 'c, 'h) world \<Rightarrow> ('r, 'c, 'h) fault + ('r, 'c, 'h) world" where
  "Lock w =
     (if defaultServerMetricsPromRegistrationMu w then Inl Deadlock
      else Inr (w\<lparr>defaultServerMetricsPromRegistrationMu := True,
                  trace := trace w @ [MuLock]\<rparr>))"

definition Unlock :: "('r, 'c, 'h) world \<Rightarrow> ('r, 'c, 'h) fault + ('r, 'c, 'h) world" where
  "Unlock w =
     (if defaultServerMetricsPromRegistrationMu w
      then Inr (w\<lparr>defaultServerMetricsPromRegistrationMu := False,
                   trace := trace w @ [MuUnlock]\<rparr>)
      else Inl UnlockOfUnlockedMutex)"

subsection \<open>Calls of the registerer and accesses of the map\<close>

definition callRegister ::
  "('r \<Rightarrow> ('c, 'h) Registerer) \<Rightarrow> 'r \<Rightarrow> 'c \<Rightarrow> ('r, 'c, 'h) world
     \<Rightarrow> error option outcome \<times> ('r, 'c, 'h) world" where
  "callRegister impl reg c w =
     (case Registerer_Register (impl reg) c (registryHeap w) of
        (Returns e, h') \<Rightarrow>
          (Returns e, w\<lparr>registryHeap := h', trace := trace w @ [RegisterCall reg c e]\<rparr>)
      | (Panics, h') \<Rightarrow>
          (Panics, w\<lparr>registryHeap := h', trace := trace w @ [RegisterPanic reg c]\<rparr>))"

text \<open>The result of \<^verbatim>\<open>Unregister\<close> is dropped by the caller (line 62).\<close>

definition callUnregister ::
  "('r \<Rightarrow> ('c, 'h) Registerer) \<Rightarrow> 'r \<Rightarrow> 'c \<Rightarrow> ('r, 'c, 'h) world
     \<Rightarrow> unit outcome \<times> ('r, 'c, 'h) world" where
  "callUnregister impl reg c w =
     (case Registerer_Unregister (impl reg) c (registryHeap w) of
        (Returns b, h') \<Rightarrow>
          (Returns (), w\<lparr>registryHeap := h', trace := trace w @ [UnregisterCall reg c b]\<rparr>)
      | (Panics, h') \<Rightarrow>
          (Panics, w\<lparr>registryHeap := h', trace := trace w @ [UnregisterPanic reg c]\<rparr>))"

text \<open>
  The index \<^verbatim>\<open>defaultServerMetricsPromRegistration[reg]\<close> of line 49. A key that is in
  the map is found; it is hashable, for it has been stored. For a key that is not in the
  map the index panics when the dynamic type of the key is not hashable, and says that
  the key is not there otherwise.
\<close>

definition mapLookup ::
  "('r \<Rightarrow> ('c, 'h) Registerer) \<Rightarrow> 'r \<Rightarrow> ('r, 'c, 'h) world
     \<Rightarrow> bool outcome \<times> ('r, 'c, 'h) world" where
  "mapLookup impl reg w =
     (case defaultServerMetricsPromRegistration w reg of
        Some u \<Rightarrow> (Returns True, w\<lparr>trace := trace w @ [MapLookup reg True]\<rparr>)
      | None \<Rightarrow>
          if Registerer_hashable (impl reg)
          then (Returns False, w\<lparr>trace := trace w @ [MapLookup reg False]\<rparr>)
          else (Panics, w\<lparr>trace := trace w @ [MapLookupPanic reg]\<rparr>))"

text \<open>The store of line 70; its key has passed the index of line 49.\<close>

definition mapStore :: "'r \<Rightarrow> ('r, 'c, 'h) world \<Rightarrow> ('r, 'c, 'h) world" where
  "mapStore reg w =
     w\<lparr>defaultServerMetricsPromRegistration := (defaultServerMetricsPromRegistration w)(reg \<mapsto> ()),
       trace := trace w @ [MapStore reg]\<rparr>"

subsection \<open>\<^verbatim>\<open>RegisterDefaultServerMetricsWithRegisterer\<close>\<close>

text \<open>
  The loop of the deferred function,
  \<^verbatim>\<open>for i := 0; i < len(registeredMetrics); i++ { reg.Unregister(registeredMetrics[i]) }\<close>:
  the slice is walked from its first element to its last, the results are dropped. A
  panic of \<^verbatim>\<open>Unregister\<close> ends the loop.
\<close>

fun unregisterLoop ::
  "('r \<Rightarrow> ('c, 'h) Registerer) \<Rightarrow> 'r \<Rightarrow> 'c list \<Rightarrow> ('r, 'c, 'h) world
     \<Rightarrow> unit outcome \<times> ('r, 'c, 'h) world" where
  "unregisterLoop impl reg [] w = (Returns (), w)"
| "unregisterLoop impl reg (c # cs) w =
     (case callUnregister impl reg c w of
        (Panics, w') \<Rightarrow> (Panics, w')
      | (Returns u, w') \<Rightarrow> unregisterLoop impl reg cs w')"

text \<open>
  The deferred function (lines 59 to 72), with the slice \<^verbatim>\<open>registeredMetrics\<close> and the
  named result \<^verbatim>\<open>err\<close> as they are when it runs. It ends normally, with the world it
  leaves, or it panics in \<^verbatim>\<open>Unregister\<close>, before the \<^verbatim>\<open>Unlock\<close> of line 65.
\<close>

definition deferred ::
  "('r \<Rightarrow> ('c, 'h) Registerer) \<Rightarrow> 'r \<Rightarrow> 'c list \<Rightarrow> error option \<Rightarrow> ('r, 'c, 'h) world
     \<Rightarrow> ('r, 'c, 'h) fault + ('r, 'c, 'h) world" where
  "deferred impl reg registeredMetrics err w =
     (if err \<noteq> None then
        (case unregisterLoop impl reg registeredMetrics w of
           (Panics, w') \<Rightarrow> Inl (Panic w')
         | (Returns u, w') \<Rightarrow> Unlock w')
      else Unlock (mapStore reg w))"

text \<open>
  A \<^verbatim>\<open>return\<close> after the \<^verbatim>\<open>defer\<close> statement runs the deferred function and then
  returns the named results; \<^verbatim>\<open>alreadyRegistered\<close> is still \<^verbatim>\<open>false\<close> there.
\<close>

definition returning ::
  "('r \<Rightarrow> ('c, 'h) Registerer) \<Rightarrow> 'r \<Rightarrow> 'c list \<Rightarrow> error option \<Rightarrow> ('r, 'c, 'h) world
     \<Rightarrow> ('r, 'c, 'h) fault + ((bool \<times> error option) \<times> ('r, 'c, 'h) world)" where
  "returning impl reg registeredMetrics err w =
     (case deferred impl reg registeredMetrics err w of
        Inl f \<Rightarrow> Inl f
      | Inr w' \<Rightarrow> Inr ((False, err), w'))"

text \<open>
  A panic after the \<^verbatim>\<open>defer\<close> statement runs the deferred function as well, with
  \<^verbatim>\<open>err\<close> as it is: the assignment \<^verbatim>\<open>err = reg.Register(...)\<close> has not taken place.
  The function does not recover, so the panic goes on to the caller.
\<close>

definition panicking ::
  "('r \<Rightarrow> ('c, 'h) Registerer) \<Rightarrow> 'r \<Rightarrow> 'c list \<Rightarrow> error option \<Rightarrow> ('r, 'c, 'h) world
     \<Rightarrow> ('r, 'c, 'h) fault + ((bool \<times> error option) \<times> ('r, 'c, 'h) world)" where
  "panicking impl reg registeredMetrics err w =
     (case deferred impl reg registeredMetrics err w of
        Inl f \<Rightarrow> Inl f
      | Inr w' \<Rightarrow> Inl (Panic w'))"

text \<open>
  The function itself (lines 46 to 102). The result is the pair
  \<^verbatim>\<open>(alreadyRegistered, err)\<close> and the world, or the fault that keeps the call from
  returning. The index of line 49 comes before the \<^verbatim>\<open>defer\<close> statement of line 59, so
  a panic there leaves at once; at every call of \<^verbatim>\<open>Register\<close> the named result
  \<^verbatim>\<open>err\<close> is \<^verbatim>\<open>nil\<close>, since the function returns as soon as it is not.
\<close>

definition RegisterDefaultServerMetricsWithRegisterer ::
  "('r \<Rightarrow> ('c, 'h) Registerer) \<Rightarrow> 'r \<Rightarrow> ('r, 'c, 'h) world
     \<Rightarrow> ('r, 'c, 'h) fault + ((bool \<times> error option) \<times> ('r, 'c, 'h) world)" where
  "RegisterDefaultServerMetricsWithRegisterer impl reg w0 =
     (case Lock w0 of
        Inl f \<Rightarrow> Inl f
      | Inr w1 \<Rightarrow>
          (case mapLookup impl reg w1 of
             (Panics, w2) \<Rightarrow> Inl (Panic w2)
           | (Returns True, w2) \<Rightarrow>
               (case Unlock w2 of
                  Inl f \<Rightarrow> Inl f
                | Inr w3 \<Rightarrow> Inr ((True, None), w3))
           | (Returns False, w2) \<Rightarrow>
               (let registeredMetrics = [] in
                case callRegister impl reg (serverStartedCounter (DefaultServerMetrics w2)) w2 of
                  (Panics, w3) \<Rightarrow> panicking impl reg registeredMetrics None w3
                | (Returns (Some e), w3) \<Rightarrow> returning impl reg registeredMetrics (Some e) w3
                | (Returns None, w3) \<Rightarrow>
               (let registeredMetrics =
                      registeredMetrics @ [serverStartedCounter (DefaultServerMetrics w3)] in
                case callRegister impl reg (serverHandledCounter (DefaultServerMetrics w3)) w3 of
                  (Panics, w4) \<Rightarrow> panicking impl reg registeredMetrics None w4
                | (Returns (Some e), w4) \<Rightarrow> returning impl reg registeredMetrics (Some e) w4
                | (Returns None, w4) \<Rightarrow>
               (let registeredMetrics =
                      registeredMetrics @ [serverHandledCounter (DefaultServerMetrics w4)] in
                case callRegister impl reg (serverStreamMsgReceived (DefaultServerMetrics w4)) w4 of
                  (Panics, w5) \<Rightarrow> panicking impl reg registeredMetrics None w5
                | (Returns (Some e), w5) \<Rightarrow> returning impl reg registeredMetrics (Some e) w5
                | (Returns None, w5) \<Rightarrow>
               (let registeredMetrics =
                      registeredMetrics @ [serverStreamMsgReceived (DefaultServerMetrics w5)] in
                case callRegister impl reg (serverStreamMsgSent (DefaultServerMetrics w5)) w5 of
                  (Panics, w6) \<Rightarrow> panicking impl reg registeredMetrics None w6
                | (Returns (Some e), w6) \<Rightarrow> returning impl reg registeredMetrics (Some e) w6
                | (Returns None, w6) \<Rightarrow>
               (let registeredMetrics =
                      registeredMetrics @ [serverStreamMsgSent (DefaultServerMetrics w6)] in
                if serverHandledHistogramEnabled (DefaultServerMetrics w6)
                   \<and> serverHandledHistogram (DefaultServerMetrics w6) \<noteq> None
                then
                  (case callRegister impl reg
                          (the (serverHandledHistogram (DefaultServerMetrics w6))) w6 of
                     (Panics, w7) \<Rightarrow> panicking impl reg registeredMetrics None w7
                   | (Returns (Some e), w7) \<Rightarrow> returning impl reg registeredMetrics (Some e) w7
                   | (Returns None, w7) \<Rightarrow>
                       returning impl reg
                         (registeredMetrics @ [the (serverHandledHistogram (DefaultServerMetrics w7))])
                         None w7)
                else returning impl reg registeredMetrics None w6)))))))"

subsection \<open>\<^verbatim>\<open>Register\<close> and \<^verbatim>\<open>EnableHandlingTimeHistogram\<close>\<close>

text \<open>
  Both functions hand their argument to a method of \<^verbatim>\<open>DefaultServerMetrics\<close>
  (lines 35 to 37 and 42 to 44). The code of the methods is not in \<^verbatim>\<open>server.go\<close>, so
  they are parameters here: \<open>initializeMetrics\<close> gets the metric set and the server and
  updates the series of the instruments, \<open>enableHandlingTimeHistogram\<close> gets the options
  and updates the metric set. Neither reaches the registration map or the mutex, which
  are variables of \<^verbatim>\<open>server.go\<close> alone.
\<close>

definition Register ::
  "('c ServerMetrics \<Rightarrow> 'srv \<Rightarrow> ('c \<Rightarrow> seriesKey \<rightharpoonup> nat) \<Rightarrow> ('c \<Rightarrow> seriesKey \<rightharpoonup> nat))
     \<Rightarrow> 'srv \<Rightarrow> ('r, 'c, 'h) world \<Rightarrow> ('r, 'c, 'h) world" where
  "Register initializeMetrics server w =
     w\<lparr>metricSeries := initializeMetrics (DefaultServerMetrics w) server (metricSeries w)\<rparr>"

definition EnableHandlingTimeHistogram ::
  "('c ServerMetrics \<Rightarrow> 'opt list \<Rightarrow> 'c ServerMetrics)
     \<Rightarrow> 'opt list \<Rightarrow> ('r, 'c, 'h) world \<Rightarrow> ('r, 'c, 'h) world" where
  "EnableHandlingTimeHistogram enableHandlingTimeHistogram opts w =
     w\<lparr>DefaultServerMetrics := enableHandlingTimeHistogram (DefaultServerMetrics w) opts\<rparr>"

subsection \<open>Sequences of calls of the package\<close>

datatype ('r, 'srv, 'opt) operation =
    CallRegister 'srv
  | CallEnableHandlingTimeHistogram "'opt list"
  | CallRegisterDefaultServerMetricsWithRegisterer 'r

record ('r, 'c, 'h, 'srv, 'opt) methods =
  registererMethods :: "'r \<Rightarrow> ('c, 'h) Registerer"
  initializeMetricsMethod ::
    "'c ServerMetrics \<Rightarrow> 'srv \<Rightarrow> ('c \<Rightarrow> seriesKey \<rightharpoonup> nat) \<Rightarrow> ('c \<Rightarrow> seriesKey \<rightharpoonup> nat)"
  enableHandlingTimeHistogramMethod :: "'c ServerMetrics \<Rightarrow> 'opt list \<Rightarrow> 'c ServerMetrics"

text \<open>
  A sequence of calls goes on after a call that returns, and after a call that panics when
  the caller recovers from the panic; it goes on in the world the call left.
\<close>

fun perform ::
  "('r, 'c, 'h, 'srv, 'opt) methods \<Rightarrow> ('r, 'srv, 'opt) operation \<Rightarrow> ('r, 'c, 'h) world
     \<Rightarrow> ('r, 'c, 'h) fault + ('r, 'c, 'h) world" where
  "perform ms (CallRegister server) w = Inr (Register (initializeMetricsMethod ms) server w)"
| "perform ms (CallEnableHandlingTimeHistogram opts) w =
     Inr (EnableHandlingTimeHistogram (enableHandlingTimeHistogramMethod ms) opts w)"
| "perform ms (CallRegisterDefaultServerMetricsWithRegisterer reg) w =
     (case RegisterDefaultServerMetricsWithRegisterer (registererMethods ms) reg w of
        Inl (Panic w') \<Rightarrow> Inr w'
      | Inl f \<Rightarrow> Inl f
      | Inr (res, w') \<Rightarrow> Inr w')"

fun performAll ::
  "('r, 'c, 'h, 'srv, 'opt) methods \<Rightarrow> ('r, 'srv, 'opt) operation list \<Rightarrow> ('r, 'c, 'h) world
     \<Rightarrow> ('r, 'c, 'h) fault + ('r, 'c, 'h) world" where
  "performAll ms [] w = Inr w"
| "performAll ms (x # xs) w =
     (case perform ms x w of Inl f \<Rightarrow> Inl f | Inr w' \<Rightarrow> performAll ms xs w')"

subsection \<open>The order of registration, stated on its own\<close>

text \<open>
  The instruments in the order in which the specification lists them: the started
  counter, the handled counter, the counter of received stream messages, the counter of
  sent stream messages, and the histogram when it is enabled and present.
\<close>

definition instrumentSequence :: "'c ServerMetrics \<Rightarrow> 'c list" where
  "instrumentSequence m =
     [serverStartedCounter m, serverHandledCounter m, serverStreamMsgReceived m,
      serverStreamMsgSent m]
     @ (if serverHandledHistogramEnabled m \<and> serverHandledHistogram m \<noteq> None
        then [the (serverHandledHistogram m)] else [])"

text \<open>
  Registering a list of instruments one at a time and stopping at the first failure or
  panic; the result is the list of the instruments registered, the error (or the panic)
  and the world.
\<close>

fun registerInOrder ::
  "('r \<Rightarrow> ('c, 'h) Registerer) \<Rightarrow> 'r \<Rightarrow> 'c list \<Rightarrow> ('r, 'c, 'h) world
     \<Rightarrow> 'c list \<times> error option outcome \<times> ('r, 'c, 'h) world" where
  "registerInOrder impl reg [] w = ([], Returns None, w)"
| "registerInOrder impl reg (c # cs) w =
     (case callRegister impl reg c w of
        (Panics, w') \<Rightarrow> ([], Panics, w')
      | (Returns (Some e), w') \<Rightarrow> ([], Returns (Some e), w')
      | (Returns None, w') \<Rightarrow>
          (case registerInOrder impl reg cs w' of
             (registered, res, w'') \<Rightarrow> (c # registered, res, w'')))"

text \<open>
  What the function does with the outcome of its registration statements, the slice
  being \<open>done\<close> followed by the instruments they registered: after the first error, or
  after the last statement, it returns; after a panic of \<^verbatim>\<open>Register\<close> it lets the panic
  through, \<^verbatim>\<open>err\<close> being \<^verbatim>\<open>nil\<close>; the deferred function runs in both cases.
\<close>

definition finish ::
  "('r \<Rightarrow> ('c, 'h) Registerer) \<Rightarrow> 'r \<Rightarrow> 'c list
     \<Rightarrow> 'c list \<times> error option outcome \<times> ('r, 'c, 'h) world
     \<Rightarrow> ('r, 'c, 'h) fault + ((bool \<times> error option) \<times> ('r, 'c, 'h) world)" where
  "finish impl reg done r =
     (case r of
        (registered, Returns err, w) \<Rightarrow> returning impl reg (done @ registered) err w
      | (registered, Panics, w) \<Rightarrow> panicking impl reg (done @ registered) None w)"

text \<open>The calls of \<^verbatim>\<open>Register\<close> that returned, each with its result, in the order of the log.\<close>

fun registerAttempts :: "('r, 'c) event list \<Rightarrow> ('c \<times> error option) list" where
  "registerAttempts [] = []"
| "registerAttempts (RegisterCall r c e # evs) = (c, e) # registerAttempts evs"
| "registerAttempts (ev # evs) = registerAttempts evs"

text \<open>
  The contract of a registry, for a view \<open>held\<close> of the instruments it holds: a
  \<^verbatim>\<open>Register\<close> that returns \<^verbatim>\<open>nil\<close> has added the instrument, one that returns an
  error has changed nothing, and an \<^verbatim>\<open>Unregister\<close> that returns has removed the
  instrument.
\<close>

definition honoursContract :: "('c, 'h) Registerer \<Rightarrow> ('h \<Rightarrow> 'c set) \<Rightarrow> bool" where
  "honoursContract R held \<longleftrightarrow>
     (\<forall>c h e h'. Registerer_Register R c h = (Returns e, h') \<longrightarrow>
        held h' = (if e = None then insert c (held h) else held h))
     \<and> (\<forall>c h b h'. Registerer_Unregister R c h = (Returns b, h') \<longrightarrow>
        held h' = held h - {c})"

subsection \<open>Two goroutines calling the function concurrently\<close>

text \<open>
  For concurrent calls the function is cut into the steps a goroutine takes one at a
  time. A program point says where the goroutine stands and holds its local variables:
  \<^item> \<open>AtLock\<close>: before \<^verbatim>\<open>Lock()\<close> (line 47);
  \<^item> \<open>AtLookup\<close>: before the lookup in the map (line 49);
  \<^item> \<open>AtEarlyUnlock\<close>: the registerer was found, before \<^verbatim>\<open>Unlock()\<close> (line 50);
  \<^item> \<open>AtRegister k registeredMetrics\<close>: before the registration statement number \<open>k\<close>
    (lines 74, 79, 84, 89 and 94 for \<open>k\<close> from 0 to 4), with the slice as it is;
  \<^item> \<open>AtRollback cs e\<close>: in the loop of the deferred function with error \<open>e\<close>, the
    instruments \<open>cs\<close> still to be unregistered (lines 61 to 65);
  \<^item> \<open>AtStore\<close>: in the deferred function without error, before the store (line 70);
  \<^item> \<open>AtOkUnlock\<close>: before the last \<^verbatim>\<open>Unlock()\<close> (line 71);
  \<^item> \<open>AtPanicStore\<close> and \<^verbatim>\<open>AtPanicUnlock\<close>: the same two points of the deferred function
    when it runs because \<^verbatim>\<open>Register\<close> has panicked;
  \<^item> \<open>Returned alreadyRegistered err\<close>: the call has returned;
  \<^item> \<open>Panicked holding\<close>: the call has been left by a panic, and \<open>holding\<close> says
    whether the goroutine had locked the mutex and not unlocked it.
\<close>

datatype 'c pc =
    AtLock
  | AtLookup
  | AtEarlyUnlock
  | AtRegister nat "'c list"
  | AtRollback "'c list" error
  | AtStore
  | AtOkUnlock
  | AtPanicStore
  | AtPanicUnlock
  | Returned bool "error option"
  | Panicked bool

text \<open>
  The instrument that registration statement number \<open>k\<close> hands to \<^verbatim>\<open>Register\<close>; the
  fifth statement is guarded by the flag and the pointer, and there is no sixth.
\<close>

fun nextInstrument :: "nat \<Rightarrow> 'c ServerMetrics \<Rightarrow> 'c option" where
  "nextInstrument 0 m = Some (serverStartedCounter m)"
| "nextInstrument (Suc 0) m = Some (serverHandledCounter m)"
| "nextInstrument (Suc (Suc 0)) m = Some (serverStreamMsgReceived m)"
| "nextInstrument (Suc (Suc (Suc 0))) m = Some (serverStreamMsgSent m)"
| "nextInstrument (Suc (Suc (Suc (Suc 0)))) m =
     (if serverHandledHistogramEnabled m \<and> serverHandledHistogram m \<noteq> None
      then serverHandledHistogram m else None)"
| "nextInstrument (Suc (Suc (Suc (Suc (Suc k))))) m = None"

text \<open>
  One step of a goroutine. A goroutine at \<^verbatim>\<open>Lock()\<close> has no step while the mutex is held,
  and a goroutine that has returned or has been left by a panic has none.
\<close>

fun threadStep ::
  "('r \<Rightarrow> ('c, 'h) Registerer) \<Rightarrow> 'r \<Rightarrow> 'c pc \<Rightarrow> ('r, 'c, 'h) world
     \<Rightarrow> ('c pc \<times> ('r, 'c, 'h) world) option" where
  "threadStep impl reg AtLock w =
     (case Lock w of Inl f \<Rightarrow> None | Inr w' \<Rightarrow> Some (AtLookup, w'))"
| "threadStep impl reg AtLookup w =
     (case mapLookup impl reg w of
        (Panics, w') \<Rightarrow> Some (Panicked True, w')
      | (Returns True, w') \<Rightarrow> Some (AtEarlyUnlock, w')
      | (Returns False, w') \<Rightarrow> Some (AtRegister 0 [], w'))"
| "threadStep impl reg AtEarlyUnlock w =
     (case Unlock w of Inl f \<Rightarrow> None | Inr w' \<Rightarrow> Some (Returned True None, w'))"
| "threadStep impl reg (AtRegister k registeredMetrics) w =
     (case nextInstrument k (DefaultServerMetrics w) of
        None \<Rightarrow> Some (AtStore, w)
      | Some c \<Rightarrow>
          (case callRegister impl reg c w of
             (Panics, w') \<Rightarrow> Some (AtPanicStore, w')
           | (Returns (Some e), w') \<Rightarrow> Some (AtRollback registeredMetrics e, w')
           | (Returns None, w') \<Rightarrow> Some (AtRegister (Suc k) (registeredMetrics @ [c]), w')))"
| "threadStep impl reg (AtRollback [] e) w =
     (case Unlock w of Inl f \<Rightarrow> None | Inr w' \<Rightarrow> Some (Returned False (Some e), w'))"
| "threadStep impl reg (AtRollback (c # cs) e) w =
     (case callUnregister impl reg c w of
        (Panics, w') \<Rightarrow> Some (Panicked True, w')
      | (Returns u, w') \<Rightarrow> Some (AtRollback cs e, w'))"
| "threadStep impl reg AtStore w = Some (AtOkUnlock, mapStore reg w)"
| "threadStep impl reg AtOkUnlock w =
     (case Unlock w of Inl f \<Rightarrow> None | Inr w' \<Rightarrow> Some (Returned False None, w'))"
| "threadStep impl reg AtPanicStore w = Some (AtPanicUnlock, mapStore reg w)"
| "threadStep impl reg AtPanicUnlock w =
     (case Unlock w of Inl f \<Rightarrow> None | Inr w' \<Rightarrow> Some (Panicked False, w'))"
| "threadStep impl reg (Returned a err) w = None"
| "threadStep impl reg (Panicked holding) w = None"

text \<open>\<open>n\<close> steps of a goroutine that runs alone.\<close>

fun threadRun ::
  "('r \<Rightarrow> ('c, 'h) Registerer) \<Rightarrow> 'r \<Rightarrow> nat \<Rightarrow> 'c pc \<times> ('r, 'c, 'h) world
     \<Rightarrow> ('c pc \<times> ('r, 'c, 'h) world) option" where
  "threadRun impl reg 0 cfg = Some cfg"
| "threadRun impl reg (Suc n) cfg =
     (case threadStep impl reg (fst cfg) (snd cfg) of
        None \<Rightarrow> None
      | Some cfg' \<Rightarrow> threadRun impl reg n cfg')"

text \<open>
  The program points between the lock and the unlock: the goroutine has locked the mutex
  and has not unlocked it. A goroutine left by a panic before its unlock stays there.
\<close>

fun inside :: "'c pc \<Rightarrow> bool" where
  "inside AtLock = False"
| "inside (Returned a err) = False"
| "inside (Panicked holding) = holding"
| "inside p = True"

text \<open>The goroutine has left the function, by a return or by a panic, after its unlock.\<close>

fun left :: "'c pc \<Rightarrow> bool" where
  "left (Returned a err) = True"
| "left (Panicked holding) = (\<not> holding)"
| "left p = False"

text \<open>
  What a goroutine that has left the function hands to its caller, in the world it
  leaves: the results, or the panic.
\<close>

fun handed ::
  "'c pc \<Rightarrow> ('r, 'c, 'h) world
     \<Rightarrow> (('r, 'c, 'h) fault + ((bool \<times> error option) \<times> ('r, 'c, 'h) world)) option" where
  "handed (Returned a err) w = Some (Inr ((a, err), w))"
| "handed (Panicked holding) w = Some (Inl (Panic w))"
| "handed p w = None"

text \<open>
  Two goroutines, the first calling the function with \<open>reg0\<close> and the second with
  \<open>reg1\<close>, under a schedule: \<open>False\<close> lets the first take a step, \<open>True\<close> the second; a
  goroutine that has no step stays where it is.
\<close>

fun scheduleStep ::
  "('r \<Rightarrow> ('c, 'h) Registerer) \<Rightarrow> 'r \<Rightarrow> 'r \<Rightarrow> bool
     \<Rightarrow> 'c pc \<times> 'c pc \<times> ('r, 'c, 'h) world \<Rightarrow> 'c pc \<times> 'c pc \<times> ('r, 'c, 'h) world" where
  "scheduleStep impl reg0 reg1 False (p0, p1, w) =
     (case threadStep impl reg0 p0 w of
        None \<Rightarrow> (p0, p1, w)
      | Some (p0', w') \<Rightarrow> (p0', p1, w'))"
| "scheduleStep impl reg0 reg1 True (p0, p1, w) =
     (case threadStep impl reg1 p1 w of
        None \<Rightarrow> (p0, p1, w)
      | Some (p1', w') \<Rightarrow> (p0, p1', w'))"

definition runSchedule ::
  "('r \<Rightarrow> ('c, 'h) Registerer) \<Rightarrow> 'r \<Rightarrow> 'r \<Rightarrow> bool list
     \<Rightarrow> 'c pc \<times> 'c pc \<times> ('r, 'c, 'h) world \<Rightarrow> 'c pc \<times> 'c pc \<times> ('r, 'c, 'h) world" where
  "runSchedule impl reg0 reg1 schedule cfg = fold (scheduleStep impl reg0 reg1) schedule cfg"

text \<open>
  The configurations of a serial execution that started in \<open>w0\<close>: nothing has happened;
  or one goroutine has run alone from \<open>w0\<close> while the other has not started; or one has
  left the function after its unlock, having run alone from \<open>w0\<close>, and the other has run
  alone from the world the first one left.
\<close>

definition serialised ::
  "('r \<Rightarrow> ('c, 'h) Registerer) \<Rightarrow> 'r \<Rightarrow> 'r \<Rightarrow> ('r, 'c, 'h) world
     \<Rightarrow> 'c pc \<times> 'c pc \<times> ('r, 'c, 'h) world \<Rightarrow> bool" where
  "serialised impl reg0 reg1 w0 cfg \<longleftrightarrow>
     (case cfg of (p0, p1, w) \<Rightarrow>
        (p0 = AtLock \<and> p1 = AtLock \<and> w = w0)
        \<or> (p1 = AtLock \<and> p0 \<noteq> AtLock
             \<and> (\<exists>n. threadRun impl reg0 n (AtLock, w0) = Some (p0, w)))
        \<or> (p0 = AtLock \<and> p1 \<noteq> AtLock
             \<and> (\<exists>n. threadRun impl reg1 n (AtLock, w0) = Some (p1, w)))
        \<or> (p1 \<noteq> AtLock
             \<and> (\<exists>w1 n k. left p0
                   \<and> threadRun impl reg0 n (AtLock, w0) = Some (p0, w1)
                   \<and> threadRun impl reg1 k (AtLock, w1) = Some (p1, w)))
        \<or> (p0 \<noteq> AtLock
             \<and> (\<exists>w1 n k. left p1
                   \<and> threadRun impl reg1 n (AtLock, w0) = Some (p1, w1)
                   \<and> threadRun impl reg0 k (AtLock, w1) = Some (p0, w))))"

subsection \<open>A registry and a metric set to run the functions on\<close>

text \<open>
  An instrument with what its descriptor says: the name, the label names and, for a
  histogram, the bucket boundaries.
\<close>

datatype collector =
    CounterVec string "string list"
  | HistogramVec string "string list" "real list"

fun collectorName :: "collector \<Rightarrow> string" where
  "collectorName (CounterVec n ls) = n"
| "collectorName (HistogramVec n ls bs) = n"

text \<open>
  A registry that holds a list of instruments. It refuses an instrument that it holds
  already and an instrument whose name one of its instruments has; \<^verbatim>\<open>Unregister\<close>
  says whether it held the instrument.
\<close>

definition nameRegistry :: "(collector, collector list) Registerer" where
  "nameRegistry =
     \<lparr>Registerer_hashable = True,
       Registerer_Register = (\<lambda>c h.
          if c \<in> set h
          then (Returns (Some ''duplicate metrics collector registration attempted''), h)
          else if collectorName c \<in> set (map collectorName h)
          then (Returns (Some ''descriptor conflicts with a registered descriptor of the same name''), h)
          else (Returns None, h @ [c])),
       Registerer_Unregister = (\<lambda>c h. (Returns (c \<in> set h), removeAll c h))\<rparr>"

text \<open>
  Three registerers that make the function panic: the \<^verbatim>\<open>nil\<close> registerer, whose
  methods panic when they are called; a registerer whose dynamic type is not hashable
  (a struct with a slice among its fields, say) and that is otherwise the registry above;
  and a registry whose \<^verbatim>\<open>Unregister\<close> panics.
\<close>

definition nilRegisterer :: "(collector, collector list) Registerer" where
  "nilRegisterer =
     \<lparr>Registerer_hashable = True,
       Registerer_Register = (\<lambda>c h. (Panics, h)),
       Registerer_Unregister = (\<lambda>c h. (Panics, h))\<rparr>"

definition unhashableRegisterer :: "(collector, collector list) Registerer" where
  "unhashableRegisterer = nameRegistry\<lparr>Registerer_hashable := False\<rparr>"

definition brokenUnregister :: "(collector, collector list) Registerer" where
  "brokenUnregister = nameRegistry\<lparr>Registerer_Unregister := (\<lambda>c h. (Panics, h))\<rparr>"

text \<open>
  Registerer values to run the panics with: key \<open>0\<close> is the \<^verbatim>\<open>nil\<close> registerer, key
  \<open>1\<close> the one that is not hashable, every other key the one whose \<^verbatim>\<open>Unregister\<close>
  panics.
\<close>

definition faultyRegisterers :: "nat \<Rightarrow> (collector, collector list) Registerer" where
  "faultyRegisterers key =
     (if key = 0 then nilRegisterer
      else if key = 1 then unhashableRegisterer
      else brokenUnregister)"

text \<open>Registerer values that are all handles of the one registry in memory.\<close>

definition sharedRegistry :: "nat \<Rightarrow> (collector, collector list) Registerer" where
  "sharedRegistry key = nameRegistry"

definition startedCounter :: collector where
  "startedCounter =
     CounterVec ''grpc_server_started_total'' [''grpc_type'', ''grpc_service'', ''grpc_method'']"

definition handledCounter :: collector where
  "handledCounter =
     CounterVec ''grpc_server_handled_total''
       [''grpc_type'', ''grpc_service'', ''grpc_method'', ''grpc_code'']"

definition msgReceivedCounter :: collector where
  "msgReceivedCounter =
     CounterVec ''grpc_server_msg_received_total''
       [''grpc_type'', ''grpc_service'', ''grpc_method'']"

definition msgSentCounter :: collector where
  "msgSentCounter =
     CounterVec ''grpc_server_msg_sent_total'' [''grpc_type'', ''grpc_service'', ''grpc_method'']"

definition handlingHistogram :: collector where
  "handlingHistogram =
     HistogramVec ''grpc_server_handling_seconds''
       [''grpc_type'', ''grpc_service'', ''grpc_method''] [0.005, 0.01, 0.025, 0.05, 0.1, 0.25, 0.5, 1, 2.5, 5, 10]"

definition plainMetrics :: "collector ServerMetrics" where
  "plainMetrics =
     \<lparr>serverStartedCounter = startedCounter,
       serverHandledCounter = handledCounter,
       serverStreamMsgReceived = msgReceivedCounter,
       serverStreamMsgSent = msgSentCounter,
       serverHandledHistogramEnabled = False,
       serverHandledHistogram = None\<rparr>"

definition histogramMetrics :: "collector ServerMetrics" where
  "histogramMetrics =
     plainMetrics\<lparr>serverHandledHistogramEnabled := True,
                    serverHandledHistogram := Some handlingHistogram\<rparr>"

definition freshWorld :: "collector ServerMetrics \<Rightarrow> collector list \<Rightarrow> (nat, collector, collector list) world" where
  "freshWorld m h =
     \<lparr>DefaultServerMetrics = m,
       defaultServerMetricsPromRegistration = Map.empty,
       defaultServerMetricsPromRegistrationMu = False,
       registryHeap = h,
       metricSeries = (\<lambda>c. Map.empty),
       trace = []\<rparr>"

definition foreignCollector :: collector where
  "foreignCollector = CounterVec ''grpc_server_msg_received_total'' [''zone'']"

text \<open>
  The world after registerer \<open>0\<close> has accepted the instruments \<open>cs\<close> of the metric set
  \<open>m\<close>, starting from an empty registry.
\<close>

definition registeredWith ::
  "collector ServerMetrics \<Rightarrow> collector list \<Rightarrow> (nat, collector, collector list) world" where
  "registeredWith m cs =
     (freshWorld m cs)
       \<lparr>defaultServerMetricsPromRegistration := [0 \<mapsto> ()],
        trace := [MuLock, MapLookup 0 False] @ map (\<lambda>c. RegisterCall 0 c None) cs
                 @ [MapStore 0, MuUnlock]\<rparr>"

definition registeredWorld :: "(nat, collector, collector list) world" where
  "registeredWorld =
     registeredWith plainMetrics
       [startedCounter, handledCounter, msgReceivedCounter, msgSentCounter]"

text \<open>A metric set whose histogram flag is set while the histogram pointer is \<open>nil\<close>.\<close>

definition flaggedMetrics :: "collector ServerMetrics" where
  "flaggedMetrics = plainMetrics\<lparr>serverHandledHistogramEnabled := True\<rparr>"

text \<open>
  Methods to run sequences of calls with: every registerer is a handle of the one
  registry, initialising leaves the series alone, and enabling the histogram sets the
  flag and installs the histogram instrument.
\<close>

definition exampleMethods :: "(nat, collector, collector list, unit, unit) methods" where
  "exampleMethods =
     \<lparr>registererMethods = sharedRegistry,
       initializeMetricsMethod = (\<lambda>m server series. series),
       enableHandlingTimeHistogramMethod =
         (\<lambda>m opts. m\<lparr>serverHandledHistogramEnabled := True,
                        serverHandledHistogram := Some handlingHistogram\<rparr>)\<rparr>"

subsection \<open>Initialising the series of the default metric set\<close>

text \<open>
  Modelled from the spec: the service table of a server, the input of the missing
  \<^verbatim>\<open>InitializeMetrics\<close>. Every service has its name and its methods, a method its name
  and its call type; \<open>triples\<close> lists the (service, method, call type) triples of a table.
\<close>

type_synonym serviceTable = "(string \<times> (string \<times> CallType) list) list"

definition triples :: "serviceTable \<Rightarrow> CallLabels list" where
  "triples server =
     concat (map (\<lambda>(svc, ms).
                    map (\<lambda>(mth, ct). \<lparr>call_type = ct, service = svc, method_name = mth\<rparr>) ms)
                 server)"

text \<open>
  Modelled from the spec: the zero increment that \<^verbatim>\<open>InitializeMetrics\<close> applies to a
  series (the code of the method is not in \<^verbatim>\<open>server.go\<close>). The series exists
  afterwards, with the value it had, or with \<open>0\<close> when it did not exist.
\<close>

definition touch :: "seriesKey \<Rightarrow> (seriesKey \<rightharpoonup> nat) \<Rightarrow> (seriesKey \<rightharpoonup> nat)" where
  "touch k counter = counter(k \<mapsto> (case counter k of None \<Rightarrow> 0 | Some v \<Rightarrow> v) + 0)"

text \<open>
  Modelled from the spec: touching one series of one instrument of the metric set, for
  the missing \<^verbatim>\<open>InitializeMetrics\<close>.
\<close>

definition touchSeries ::
  "'c \<Rightarrow> seriesKey \<Rightarrow> ('c \<Rightarrow> seriesKey \<rightharpoonup> nat) \<Rightarrow> ('c \<Rightarrow> seriesKey \<rightharpoonup> nat)" where
  "touchSeries c k series = series(c := touch k (series c))"

text \<open>
  Modelled from the spec: what the missing \<^verbatim>\<open>InitializeMetrics\<close> does for one
  (service, method, call type) triple. It touches the started counter and the handled
  counter; the handled counter is keyed by the call labels and the status code, \<open>allCodes\<close>
  is the fixed set of status codes, and the series of each of them is touched.
\<close>

definition touchTriple ::
  "StatusCode list \<Rightarrow> 'c ServerMetrics \<Rightarrow> CallLabels
     \<Rightarrow> ('c \<Rightarrow> seriesKey \<rightharpoonup> nat) \<Rightarrow> ('c \<Rightarrow> seriesKey \<rightharpoonup> nat)" where
  "touchTriple allCodes m labels series =
     fold (\<lambda>code. touchSeries (serverHandledCounter m) (labels, Some code)) allCodes
       (touchSeries (serverStartedCounter m) (labels, None) series)"

text \<open>
  Modelled from the spec: the method \<^verbatim>\<open>InitializeMetrics\<close> of \<^verbatim>\<open>ServerMetrics\<close>, whose
  code is not in \<^verbatim>\<open>server.go\<close>. In the specification's words it touches, for every
  (service, method, call type) triple of the server's service table, the started and the
  handled counter with a zero increment, so that every expected series exists before the
  first real call.
\<close>

definition InitializeMetrics ::
  "StatusCode list \<Rightarrow> 'c ServerMetrics \<Rightarrow> serviceTable
     \<Rightarrow> ('c \<Rightarrow> seriesKey \<rightharpoonup> nat) \<Rightarrow> ('c \<Rightarrow> seriesKey \<rightharpoonup> nat)" where
  "InitializeMetrics allCodes m server series =
     fold (touchTriple allCodes m) (triples server) series"

text \<open>The server of the specification's example, and two status codes.\<close>

definition exampleServer :: serviceTable where
  "exampleServer =
     [(''pkg.Service'', [(''UnaryA'', Unary), (''StreamB'', ServerStream)])]"

definition exampleCodes :: "StatusCode list" where
  "exampleCodes = [''OK'', ''Unknown'']"

text \<open>
  The series after the keys in \<open>T\<close> have been touched, in closed form: a touched series
  exists with the value it had, or with \<open>0\<close>; every other series is as it was.
\<close>

definition zeroed ::
  "('c \<times> seriesKey) set \<Rightarrow> ('c \<Rightarrow> seriesKey \<rightharpoonup> nat) \<Rightarrow> ('c \<Rightarrow> seriesKey \<rightharpoonup> nat)" where
  "zeroed T series =
     (\<lambda>c k. if (c, k) \<in> T then Some (case series c k of None \<Rightarrow> 0 | Some v \<Rightarrow> v)
            else series c k)"

definition expectedSeries ::
  "StatusCode list \<Rightarrow> 'c ServerMetrics \<Rightarrow> CallLabels \<Rightarrow> ('c \<times> seriesKey) set" where
  "expectedSeries allCodes m labels =
     insert (serverStartedCounter m, (labels, None))
       ((\<lambda>code. (serverHandledCounter m, (labels, Some code))) ` set allCodes)"

section \<open>Properties\<close>

subsection \<open>Auxiliary facts\<close>

lemma callRegister_frame [simp]:
  "DefaultServerMetrics (snd (callRegister impl reg c w)) = DefaultServerMetrics w"
  "defaultServerMetricsPromRegistration (snd (callRegister impl reg c w)) = defaultServerMetricsPromRegistration w"
  "defaultServerMetricsPromRegistrationMu (snd (callRegister impl reg c w)) = defaultServerMetricsPromRegistrationMu w"
  by (simp_all add: callRegister_def split: prod.splits outcome.splits)

lemma callRegister_frame':
  "callRegister impl reg c w = (res, w') \<Longrightarrow> DefaultServerMetrics w' = DefaultServerMetrics w"
  using callRegister_frame(1) [of impl reg c w] by simp

lemma registerInOrder_step:
  assumes "callRegister impl reg c w = (res, w')"
  shows "registerInOrder impl reg (c # cs) w =
           (case res of
              Panics \<Rightarrow> ([], Panics, w')
            | Returns (Some e) \<Rightarrow> ([], Returns (Some e), w')
            | Returns None \<Rightarrow>
                (case registerInOrder impl reg cs w' of
                   (registered, r, w'') \<Rightarrow> (c # registered, r, w'')))"
  using assms by (simp split: outcome.splits option.splits)

lemma finish_step:
  assumes "callRegister impl reg c w = (res, w')"
  shows "finish impl reg done (registerInOrder impl reg (c # cs) w) =
           (case res of
              Panics \<Rightarrow> panicking impl reg done None w'
            | Returns (Some e) \<Rightarrow> returning impl reg done (Some e) w'
            | Returns None \<Rightarrow> finish impl reg (done @ [c]) (registerInOrder impl reg cs w'))"
  unfolding registerInOrder_step [OF assms]
  by (cases res rule: outcome.exhaust; cases "registerInOrder impl reg cs w'")
     (auto simp: finish_def split: option.splits outcome.splits)

lemma finish_Nil: "finish impl reg done (registerInOrder impl reg [] w) = returning impl reg done None w"
  by (simp add: finish_def)

lemma body_registerInOrder:
  "RegisterDefaultServerMetricsWithRegisterer impl reg w0 =
     (case Lock w0 of
        Inl f \<Rightarrow> Inl f
      | Inr w1 \<Rightarrow>
          (case mapLookup impl reg w1 of
             (Panics, w2) \<Rightarrow> Inl (Panic w2)
           | (Returns True, w2) \<Rightarrow>
               (case Unlock w2 of Inl f \<Rightarrow> Inl f | Inr w3 \<Rightarrow> Inr ((True, None), w3))
           | (Returns False, w2) \<Rightarrow>
               finish impl reg []
                 (registerInOrder impl reg (instrumentSequence (DefaultServerMetrics w2)) w2)))"
proof (cases "Lock w0")
  case (Inl f)
  then show ?thesis by (simp add: RegisterDefaultServerMetricsWithRegisterer_def)
next
  case (Inr w1)
  obtain ok w2 where lk: "mapLookup impl reg w1 = (ok, w2)" by (cases "mapLookup impl reg w1")
  note unf = RegisterDefaultServerMetricsWithRegisterer_def
  show ?thesis
  proof (cases ok)
    case Panics
    with Inr lk show ?thesis by (simp add: unf)
  next
    case (Returns found)
    show ?thesis
    proof (cases found)
      case True
      with Inr lk Returns show ?thesis by (simp add: unf)
    next
      case False
      define m where "m = DefaultServerMetrics w2"
      define tl4 where "tl4 = (if serverHandledHistogramEnabled m \<and> serverHandledHistogram m \<noteq> None
        then [the (serverHandledHistogram m)] else [])"
      have seq: "instrumentSequence m =
          serverStartedCounter m # serverHandledCounter m # serverStreamMsgReceived m
            # serverStreamMsgSent m # tl4"
        by (simp add: instrumentSequence_def tl4_def)
      note pre = Inr lk Returns False
      obtain o1 w3 where r1: "callRegister impl reg (serverStartedCounter m) w2 = (o1, w3)"
        by (cases "callRegister impl reg (serverStartedCounter m) w2")
      have m3: "DefaultServerMetrics w3 = m" using callRegister_frame' [OF r1] m_def by simp
      note f1 = finish_step [OF r1, of "[]"]
      show ?thesis
      proof (cases o1)
        case Panics
        with pre r1 show ?thesis by (simp add: finish_def unf m_def [symmetric] seq f1)
      next
        case R1: (Returns e1)
        show ?thesis
        proof (cases e1)
          case (Some e)
          with pre r1 R1 show ?thesis by (simp add: finish_def unf m_def [symmetric] seq f1)
        next
          case n1: None
          obtain o2 w4 where r2: "callRegister impl reg (serverHandledCounter m) w3 = (o2, w4)"
            by (cases "callRegister impl reg (serverHandledCounter m) w3")
          have m4: "DefaultServerMetrics w4 = m" using callRegister_frame' [OF r2] m3 by simp
          note f2 = finish_step [OF r2, of "[serverStartedCounter m]"]
          note pre2 = pre r1 R1 n1 m3
          show ?thesis
          proof (cases o2)
            case Panics
            with pre2 r2 show ?thesis by (simp add: finish_def unf m_def [symmetric] seq f1 f2)
          next
            case R2: (Returns e2)
            show ?thesis
            proof (cases e2)
              case (Some e)
              with pre2 r2 R2 show ?thesis by (simp add: finish_def unf m_def [symmetric] seq f1 f2)
            next
              case n2: None
              obtain o3 w5 where
                r3: "callRegister impl reg (serverStreamMsgReceived m) w4 = (o3, w5)"
                by (cases "callRegister impl reg (serverStreamMsgReceived m) w4")
              have m5: "DefaultServerMetrics w5 = m" using callRegister_frame' [OF r3] m4 by simp
              note f3 = finish_step [OF r3, of "[serverStartedCounter m, serverHandledCounter m]"]
              note pre3 = pre2 r2 R2 n2 m4
              show ?thesis
              proof (cases o3)
                case Panics
                with pre3 r3 show ?thesis by (simp add: finish_def unf m_def [symmetric] seq f1 f2 f3)
              next
                case R3: (Returns e3)
                show ?thesis
                proof (cases e3)
                  case (Some e)
                  with pre3 r3 R3 show ?thesis by (simp add: finish_def unf m_def [symmetric] seq f1 f2 f3)
                next
                  case n3: None
                  obtain o4 w6 where
                    r4: "callRegister impl reg (serverStreamMsgSent m) w5 = (o4, w6)"
                    by (cases "callRegister impl reg (serverStreamMsgSent m) w5")
                  have m6: "DefaultServerMetrics w6 = m"
                    using callRegister_frame' [OF r4] m5 by simp
                  note f4 = finish_step [OF r4, of "[serverStartedCounter m,
                    serverHandledCounter m, serverStreamMsgReceived m]"]
                  note pre4 = pre3 r3 R3 n3 m5
                  show ?thesis
                  proof (cases o4)
                    case Panics
                    with pre4 r4 show ?thesis
                      by (simp add: finish_def unf m_def [symmetric] seq f1 f2 f3 f4)
                  next
                    case R4: (Returns e4)
                    show ?thesis
                    proof (cases e4)
                      case (Some e)
                      with pre4 r4 R4 show ?thesis
                        by (simp add: finish_def unf m_def [symmetric] seq f1 f2 f3 f4)
                    next
                      case n4: None
                      note pre5 = pre4 r4 R4 n4 m6
                      show ?thesis
                      proof (cases "serverHandledHistogram m")
                        case hn: None
                        then have "tl4 = []" by (simp add: tl4_def)
                        with pre5 hn show ?thesis
                          by (simp add: finish_def unf m_def [symmetric] seq f1 f2 f3 f4 finish_Nil)
                      next
                        case h: (Some h)
                        show ?thesis
                        proof (cases "serverHandledHistogramEnabled m")
                          case False
                          then have "tl4 = []" by (simp add: tl4_def)
                          with pre5 h False show ?thesis
                            by (simp add: finish_def unf m_def [symmetric] seq f1 f2 f3 f4 finish_Nil)
                        next
                          case True
                          then have t: "tl4 = [h]" using h by (simp add: tl4_def)
                          obtain o5 w7 where r5: "callRegister impl reg h w6 = (o5, w7)"
                            by (cases "callRegister impl reg h w6")
                          have m7: "DefaultServerMetrics w7 = m"
                            using callRegister_frame' [OF r5] m6 by simp
                          note f5 = finish_step [OF r5, of "[serverStartedCounter m,
                            serverHandledCounter m, serverStreamMsgReceived m,
                            serverStreamMsgSent m]" "[]"]
                          from pre5 h True t r5 m7 show ?thesis
                            by (cases o5 rule: outcome.exhaust)
                               (simp_all add: finish_def unf m_def [symmetric] seq f1 f2 f3 f4 f5 finish_Nil
                                  split: option.splits)
                        qed
                      qed
                    qed
                  qed
                qed
              qed
            qed
          qed
        qed
      qed
    qed
  qed
qed

lemma honoursContract_Unregister:
  assumes "honoursContract R held" and "Registerer_Unregister R c h = (Returns b, h')"
  shows "held h' = held h - {c}"
  using assms unfolding honoursContract_def by blast

lemma honoursContract_Register:
  assumes "honoursContract R held" and "Registerer_Register R c h = (Returns e, h')"
  shows "held h' = (if e = None then insert c (held h) else held h)"
  using assms unfolding honoursContract_def by blast

lemma callUnregister_frame [simp]:
  "DefaultServerMetrics (snd (callUnregister impl reg c w)) = DefaultServerMetrics w"
  "defaultServerMetricsPromRegistration (snd (callUnregister impl reg c w)) = defaultServerMetricsPromRegistration w"
  "defaultServerMetricsPromRegistrationMu (snd (callUnregister impl reg c w)) = defaultServerMetricsPromRegistrationMu w"
  by (simp_all add: callUnregister_def split: prod.splits outcome.splits)

lemma unregisterLoop_frame:
  "unregisterLoop impl reg cs w = (res, w') \<Longrightarrow>
     DefaultServerMetrics w' = DefaultServerMetrics w
     \<and> defaultServerMetricsPromRegistration w' = defaultServerMetricsPromRegistration w
     \<and> defaultServerMetricsPromRegistrationMu w' = defaultServerMetricsPromRegistrationMu w"
proof (induction cs arbitrary: w)
  case Nil
  then show ?case by simp
next
  case (Cons c cs)
  obtain o1 w1 where u: "callUnregister impl reg c w = (o1, w1)"
    by (cases "callUnregister impl reg c w")
  have f: "DefaultServerMetrics w1 = DefaultServerMetrics w"
    "defaultServerMetricsPromRegistration w1 = defaultServerMetricsPromRegistration w"
    "defaultServerMetricsPromRegistrationMu w1 = defaultServerMetricsPromRegistrationMu w"
    using callUnregister_frame [of impl reg c w] u by simp_all
  show ?case
  proof (cases o1)
    case Panics
    with Cons.prems u f show ?thesis by simp
  next
    case (Returns x)
    with Cons.prems u have "unregisterLoop impl reg cs w1 = (res, w')" by simp
    from Cons.IH [OF this] f show ?thesis by simp
  qed
qed

lemma unregisterLoop_returns:
  "unregisterLoop impl reg cs w = (Returns u, w') \<Longrightarrow>
     \<exists>bs. length bs = length cs \<and>
       trace w' = trace w @ map (\<lambda>(c, b). UnregisterCall reg c b) (zip cs bs)"
proof (induction cs arbitrary: w)
  case Nil
  then show ?case by simp
next
  case (Cons c cs)
  obtain o1 h' where ur: "Registerer_Unregister (impl reg) c (registryHeap w) = (o1, h')"
    by (cases "Registerer_Unregister (impl reg) c (registryHeap w)")
  show ?case
  proof (cases o1)
    case Panics
    with Cons.prems ur show ?thesis by (simp add: callUnregister_def)
  next
    case (Returns b)
    define w1 where "w1 = w\<lparr>registryHeap := h', trace := trace w @ [UnregisterCall reg c b]\<rparr>"
    have cu: "callUnregister impl reg c w = (Returns (), w1)"
      using ur Returns by (simp add: callUnregister_def w1_def)
    with Cons.prems have "unregisterLoop impl reg cs w1 = (Returns u, w')" by simp
    from Cons.IH [OF this] obtain bs where
      bs: "length bs = length cs"
        "trace w' = trace w1 @ map (\<lambda>(c, b). UnregisterCall reg c b) (zip cs bs)"
      by blast
    have "length (b # bs) = length (c # cs) \<and>
       trace w' = trace w @ map (\<lambda>(c, b). UnregisterCall reg c b) (zip (c # cs) (b # bs))"
      using bs by (simp add: w1_def)
    then show ?thesis by blast
  qed
qed

lemma unregisterLoop_panics:
  "unregisterLoop impl reg cs w = (Panics, w') \<Longrightarrow>
     \<exists>before u after bs. cs = before @ u # after \<and> length bs = length before \<and>
       trace w' = trace w @ map (\<lambda>(c, b). UnregisterCall reg c b) (zip before bs)
                  @ [UnregisterPanic reg u]"
proof (induction cs arbitrary: w)
  case Nil
  then show ?case by simp
next
  case (Cons c cs)
  obtain o1 h' where ur: "Registerer_Unregister (impl reg) c (registryHeap w) = (o1, h')"
    by (cases "Registerer_Unregister (impl reg) c (registryHeap w)")
  show ?case
  proof (cases o1)
    case Panics
    with Cons.prems ur
    have "trace w' = trace w @ [UnregisterPanic reg c]" by (auto simp: callUnregister_def)
    then have "c # cs = [] @ c # cs \<and> length ([] :: bool list) = length ([] :: 'b list) \<and>
       trace w' = trace w @ map (\<lambda>(c, b). UnregisterCall reg c b) (zip [] [])
                  @ [UnregisterPanic reg c]"
      by simp
    then show ?thesis by blast
  next
    case (Returns b)
    define w1 where "w1 = w\<lparr>registryHeap := h', trace := trace w @ [UnregisterCall reg c b]\<rparr>"
    have cu: "callUnregister impl reg c w = (Returns (), w1)"
      using ur Returns by (simp add: callUnregister_def w1_def)
    with Cons.prems have "unregisterLoop impl reg cs w1 = (Panics, w')" by simp
    from Cons.IH [OF this] obtain before u after bs where
      bs: "cs = before @ u # after" "length bs = length before"
        "trace w' = trace w1 @ map (\<lambda>(c, b). UnregisterCall reg c b) (zip before bs)
                  @ [UnregisterPanic reg u]"
      by blast
    have "c # cs = (c # before) @ u # after \<and> length (b # bs) = length (c # before) \<and>
       trace w' = trace w @ map (\<lambda>(c, b). UnregisterCall reg c b) (zip (c # before) (b # bs))
                  @ [UnregisterPanic reg u]"
      using bs by (simp add: w1_def)
    then show ?thesis by blast
  qed
qed

lemma unregisterLoop_held:
  assumes "honoursContract (impl reg) held"
  shows "unregisterLoop impl reg cs w = (Returns u, w') \<Longrightarrow>
           held (registryHeap w') = held (registryHeap w) - set cs"
proof (induction cs arbitrary: w)
  case Nil
  then show ?case by simp
next
  case (Cons c cs)
  obtain o1 h' where ur: "Registerer_Unregister (impl reg) c (registryHeap w) = (o1, h')"
    by (cases "Registerer_Unregister (impl reg) c (registryHeap w)")
  show ?case
  proof (cases o1)
    case Panics
    with Cons.prems ur show ?thesis by (simp add: callUnregister_def)
  next
    case (Returns b)
    define w1 where "w1 = w\<lparr>registryHeap := h', trace := trace w @ [UnregisterCall reg c b]\<rparr>"
    have cu: "callUnregister impl reg c w = (Returns (), w1)"
      using ur Returns by (simp add: callUnregister_def w1_def)
    with Cons.prems have rec: "unregisterLoop impl reg cs w1 = (Returns u, w')" by simp
    have "held (registryHeap w1) = held (registryHeap w) - {c}"
      using honoursContract_Unregister [OF assms ur [unfolded Returns]] by (simp add: w1_def)
    with Cons.IH [OF rec] show ?thesis by auto
  qed
qed

lemma registerInOrder_frame:
  "registerInOrder impl reg cs w = (registered, res, w') \<Longrightarrow>
     DefaultServerMetrics w' = DefaultServerMetrics w
     \<and> defaultServerMetricsPromRegistration w' = defaultServerMetricsPromRegistration w
     \<and> defaultServerMetricsPromRegistrationMu w' = defaultServerMetricsPromRegistrationMu w"
proof (induction cs arbitrary: w registered)
  case Nil
  then show ?case by simp
next
  case (Cons c cs)
  obtain o1 w1 where r: "callRegister impl reg c w = (o1, w1)" by (cases "callRegister impl reg c w")
  have f: "DefaultServerMetrics w1 = DefaultServerMetrics w"
    "defaultServerMetricsPromRegistration w1 = defaultServerMetricsPromRegistration w"
    "defaultServerMetricsPromRegistrationMu w1 = defaultServerMetricsPromRegistrationMu w"
    using callRegister_frame [of impl reg c w] r by simp_all
  show ?case
  proof (cases o1)
    case Panics
    with Cons.prems r f show ?thesis by simp
  next
    case (Returns e)
    show ?thesis
    proof (cases e)
      case (Some x)
      with Cons.prems r f Returns show ?thesis by simp
    next
      case None
      with Cons.prems r Returns obtain regd where
        "registerInOrder impl reg cs w1 = (regd, res, w')"
        by (auto split: prod.splits)
      from Cons.IH [OF this] f show ?thesis by simp
    qed
  qed
qed

lemma registerInOrder_shape:
  "registerInOrder impl reg cs w = (registered, res, w') \<Longrightarrow>
     (case res of
        Returns None \<Rightarrow> registered = cs
          \<and> trace w' = trace w @ map (\<lambda>c. RegisterCall reg c None) cs
      | Returns (Some e) \<Rightarrow> (\<exists>c rest. cs = registered @ c # rest
          \<and> trace w' = trace w @ map (\<lambda>c. RegisterCall reg c None) registered
                          @ [RegisterCall reg c (Some e)])
      | Panics \<Rightarrow> (\<exists>c rest. cs = registered @ c # rest
          \<and> trace w' = trace w @ map (\<lambda>c. RegisterCall reg c None) registered
                          @ [RegisterPanic reg c]))"
proof (induction cs arbitrary: w registered)
  case Nil
  then show ?case by auto
next
  case (Cons c cs)
  obtain o1 h1 where rr: "Registerer_Register (impl reg) c (registryHeap w) = (o1, h1)"
    by (cases "Registerer_Register (impl reg) c (registryHeap w)")
  show ?case
  proof (cases o1)
    case Panics
    with rr have "callRegister impl reg c w =
        (Panics, w\<lparr>registryHeap := h1, trace := trace w @ [RegisterPanic reg c]\<rparr>)"
      by (simp add: callRegister_def)
    with Cons.prems show ?thesis by auto
  next
    case (Returns e)
    define w1 where "w1 = w\<lparr>registryHeap := h1, trace := trace w @ [RegisterCall reg c e]\<rparr>"
    have r: "callRegister impl reg c w = (Returns e, w1)"
      using rr Returns by (simp add: callRegister_def w1_def)
    have t1: "trace w1 = trace w @ [RegisterCall reg c e]" by (simp add: w1_def)
    show ?thesis
    proof (cases e)
      case (Some x)
      with Cons.prems r t1 show ?thesis by auto
    next
      case None
      with Cons.prems r obtain regd where
        rec: "registerInOrder impl reg cs w1 = (regd, res, w')" and regd: "registered = c # regd"
        by (auto split: prod.splits)
      from Cons.IH [OF rec] t1 None regd show ?thesis
        by (cases res; cases "case res of Returns x \<Rightarrow> x") auto
    qed
  qed
qed

lemma registerInOrder_held:
  assumes "honoursContract (impl reg) held"
  shows "registerInOrder impl reg cs w = (registered, Returns err, w') \<Longrightarrow>
     held (registryHeap w') = held (registryHeap w) \<union> set registered"
proof (induction cs arbitrary: w registered)
  case Nil
  then show ?case by simp
next
  case (Cons c cs)
  obtain o1 h1 where rr: "Registerer_Register (impl reg) c (registryHeap w) = (o1, h1)"
    by (cases "Registerer_Register (impl reg) c (registryHeap w)")
  show ?case
  proof (cases o1)
    case Panics
    with rr have "callRegister impl reg c w =
        (Panics, w\<lparr>registryHeap := h1, trace := trace w @ [RegisterPanic reg c]\<rparr>)"
      by (simp add: callRegister_def)
    with Cons.prems show ?thesis by simp
  next
    case (Returns e)
    define w1 where "w1 = w\<lparr>registryHeap := h1, trace := trace w @ [RegisterCall reg c e]\<rparr>"
    have r: "callRegister impl reg c w = (Returns e, w1)"
      using rr Returns by (simp add: callRegister_def w1_def)
    have h1: "held (registryHeap w1) =
        (if e = None then insert c (held (registryHeap w)) else held (registryHeap w))"
      using honoursContract_Register [OF assms rr [unfolded Returns]] by (simp add: w1_def)
    show ?thesis
    proof (cases e)
      case (Some x)
      with Cons.prems r h1 show ?thesis by auto
    next
      case None
      with Cons.prems r obtain regd where
        rec: "registerInOrder impl reg cs w1 = (regd, Returns err, w')"
        and regd: "registered = c # regd"
        by (auto split: prod.splits)
      from Cons.IH [OF rec] h1 None regd show ?thesis by auto
    qed
  qed
qed

lemma call_held:
  "defaultServerMetricsPromRegistrationMu w \<Longrightarrow>
     RegisterDefaultServerMetricsWithRegisterer impl reg w = Inl Deadlock"
  by (simp add: RegisterDefaultServerMetricsWithRegisterer_def Lock_def)

lemma call_already:
  assumes "\<not> defaultServerMetricsPromRegistrationMu w"
    and "defaultServerMetricsPromRegistration w reg \<noteq> None"
  shows "RegisterDefaultServerMetricsWithRegisterer impl reg w =
           Inr ((True, None), w\<lparr>trace := trace w @ [MuLock, MapLookup reg True, MuUnlock]\<rparr>)"
  using assms
  by (auto simp: body_registerInOrder Lock_def Unlock_def mapLookup_def)

lemma call_unhashable:
  assumes "\<not> defaultServerMetricsPromRegistrationMu w"
    and "defaultServerMetricsPromRegistration w reg = None"
    and "\<not> Registerer_hashable (impl reg)"
  shows "RegisterDefaultServerMetricsWithRegisterer impl reg w =
           Inl (Panic (w\<lparr>defaultServerMetricsPromRegistrationMu := True,
                          trace := trace w @ [MuLock, MapLookupPanic reg]\<rparr>))"
  using assms
  by (simp add: body_registerInOrder Lock_def mapLookup_def)

lemma call_fresh:
  assumes "\<not> defaultServerMetricsPromRegistrationMu w"
    and "defaultServerMetricsPromRegistration w reg = None"
    and "Registerer_hashable (impl reg)"
  shows "RegisterDefaultServerMetricsWithRegisterer impl reg w =
           finish impl reg []
             (registerInOrder impl reg (instrumentSequence (DefaultServerMetrics w))
                (w\<lparr>defaultServerMetricsPromRegistrationMu := True,
                   trace := trace w @ [MuLock, MapLookup reg False]\<rparr>))"
  using assms
  by (simp add: body_registerInOrder Lock_def mapLookup_def)

lemma call_outcome
  [consumes 2, case_names success failure unhashable register_panic unregister_panic]:
  assumes free: "\<not> defaultServerMetricsPromRegistrationMu w"
    and fresh: "defaultServerMetricsPromRegistration w reg = None"
  obtains
    (success) w' where
      "RegisterDefaultServerMetricsWithRegisterer impl reg w = Inr ((False, None), w')"
      "DefaultServerMetrics w' = DefaultServerMetrics w"
      "defaultServerMetricsPromRegistration w' =
         (defaultServerMetricsPromRegistration w)(reg \<mapsto> ())"
      "\<not> defaultServerMetricsPromRegistrationMu w'"
      "trace w' = trace w @ [MuLock, MapLookup reg False]
         @ map (\<lambda>c. RegisterCall reg c None) (instrumentSequence (DefaultServerMetrics w))
         @ [MapStore reg, MuUnlock]"
      "\<And>held. honoursContract (impl reg) held \<Longrightarrow>
         held (registryHeap w') =
           held (registryHeap w) \<union> set (instrumentSequence (DefaultServerMetrics w))"
      "Registerer_hashable (impl reg)"
  | (failure) w' e registered c rest bs where
      "RegisterDefaultServerMetricsWithRegisterer impl reg w = Inr ((False, Some e), w')"
      "instrumentSequence (DefaultServerMetrics w) = registered @ c # rest"
      "length bs = length registered"
      "DefaultServerMetrics w' = DefaultServerMetrics w"
      "defaultServerMetricsPromRegistration w' = defaultServerMetricsPromRegistration w"
      "\<not> defaultServerMetricsPromRegistrationMu w'"
      "trace w' = trace w @ [MuLock, MapLookup reg False]
         @ map (\<lambda>c. RegisterCall reg c None) registered
         @ [RegisterCall reg c (Some e)]
         @ map (\<lambda>(c, b). UnregisterCall reg c b) (zip registered bs)
         @ [MuUnlock]"
      "\<And>held. honoursContract (impl reg) held \<Longrightarrow>
         held (registryHeap w') = held (registryHeap w) - set registered"
      "Registerer_hashable (impl reg)"
  | (unhashable)
      "\<not> Registerer_hashable (impl reg)"
      "RegisterDefaultServerMetricsWithRegisterer impl reg w =
         Inl (Panic (w\<lparr>defaultServerMetricsPromRegistrationMu := True,
                        trace := trace w @ [MuLock, MapLookupPanic reg]\<rparr>))"
  | (register_panic) w' registered c rest where
      "RegisterDefaultServerMetricsWithRegisterer impl reg w = Inl (Panic w')"
      "instrumentSequence (DefaultServerMetrics w) = registered @ c # rest"
      "DefaultServerMetrics w' = DefaultServerMetrics w"
      "defaultServerMetricsPromRegistration w' =
         (defaultServerMetricsPromRegistration w)(reg \<mapsto> ())"
      "\<not> defaultServerMetricsPromRegistrationMu w'"
      "trace w' = trace w @ [MuLock, MapLookup reg False]
         @ map (\<lambda>c. RegisterCall reg c None) registered
         @ [RegisterPanic reg c, MapStore reg, MuUnlock]"
      "Registerer_hashable (impl reg)"
  | (unregister_panic) w' e registered c rest before u after bs where
      "RegisterDefaultServerMetricsWithRegisterer impl reg w = Inl (Panic w')"
      "instrumentSequence (DefaultServerMetrics w) = registered @ c # rest"
      "registered = before @ u # after"
      "length bs = length before"
      "DefaultServerMetrics w' = DefaultServerMetrics w"
      "defaultServerMetricsPromRegistration w' = defaultServerMetricsPromRegistration w"
      "defaultServerMetricsPromRegistrationMu w'"
      "trace w' = trace w @ [MuLock, MapLookup reg False]
         @ map (\<lambda>c. RegisterCall reg c None) registered
         @ [RegisterCall reg c (Some e)]
         @ map (\<lambda>(c, b). UnregisterCall reg c b) (zip before bs)
         @ [UnregisterPanic reg u]"
      "Registerer_hashable (impl reg)"
proof (cases "Registerer_hashable (impl reg)")
  case False
  from unhashable [OF False call_unhashable [where impl = impl and reg = reg, OF free fresh False]] show thesis .
next
  case hash: True
  define w2 where "w2 = w\<lparr>defaultServerMetricsPromRegistrationMu := True,
                      trace := trace w @ [MuLock, MapLookup reg False]\<rparr>"
  define cs where "cs = instrumentSequence (DefaultServerMetrics w)"
  obtain registered res w3 where rio: "registerInOrder impl reg cs w2 = (registered, res, w3)"
    by (cases "registerInOrder impl reg cs w2")
  have call: "RegisterDefaultServerMetricsWithRegisterer impl reg w =
      finish impl reg [] (registered, res, w3)"
    using call_fresh [where impl = impl and reg = reg, OF free fresh hash] rio by (simp add: w2_def cs_def)
  have fr: "DefaultServerMetrics w3 = DefaultServerMetrics w"
    "defaultServerMetricsPromRegistration w3 = defaultServerMetricsPromRegistration w"
    "defaultServerMetricsPromRegistrationMu w3"
    using registerInOrder_frame [OF rio] by (simp_all add: w2_def)
  show thesis
  proof (cases res)
    case Panics
    with registerInOrder_shape [OF rio] obtain c rest where
      sh: "cs = registered @ c # rest"
        "trace w3 = trace w2 @ map (\<lambda>c. RegisterCall reg c None) registered
                          @ [RegisterPanic reg c]"
      by auto
    define w' where "w' = (mapStore reg w3)\<lparr>defaultServerMetricsPromRegistrationMu := False,
                   trace := trace (mapStore reg w3) @ [MuUnlock]\<rparr>"
    show thesis
    proof (rule register_panic)
      show "RegisterDefaultServerMetricsWithRegisterer impl reg w = Inl (Panic w')"
        using call Panics fr
        by (simp add: finish_def panicking_def deferred_def Unlock_def mapStore_def w'_def)
      show "instrumentSequence (DefaultServerMetrics w) = registered @ c # rest"
        using sh(1) by (simp add: cs_def)
      show "DefaultServerMetrics w' = DefaultServerMetrics w"
        using fr by (simp add: w'_def mapStore_def)
      show "defaultServerMetricsPromRegistration w' =
                (defaultServerMetricsPromRegistration w)(reg \<mapsto> ())"
        using fr by (simp add: w'_def mapStore_def)
      show "\<not> defaultServerMetricsPromRegistrationMu w'" by (simp add: w'_def)
      show "trace w' = trace w @ [MuLock, MapLookup reg False]
         @ map (\<lambda>c. RegisterCall reg c None) registered
         @ [RegisterPanic reg c, MapStore reg, MuUnlock]"
        using sh by (simp add: w'_def mapStore_def w2_def)
      show "Registerer_hashable (impl reg)" by (rule hash)
    qed
  next
    case (Returns err)
    have held3: "held (registryHeap w3) = held (registryHeap w) \<union> set registered"
      if "honoursContract (impl reg) held" for held
      using registerInOrder_held [OF that rio [unfolded Returns]] by (simp add: w2_def)
    show thesis
    proof (cases err)
      case None
      with registerInOrder_shape [OF rio] Returns
      have sh: "registered = cs" "trace w3 = trace w2 @ map (\<lambda>c. RegisterCall reg c None) cs"
        by simp_all
      define w' where "w' = (mapStore reg w3)\<lparr>defaultServerMetricsPromRegistrationMu := False,
                     trace := trace (mapStore reg w3) @ [MuUnlock]\<rparr>"
      show thesis
      proof (rule success)
        show "RegisterDefaultServerMetricsWithRegisterer impl reg w = Inr ((False, None), w')"
          using call None Returns fr
          by (simp add: finish_def returning_def deferred_def Unlock_def mapStore_def w'_def)
        show "DefaultServerMetrics w' = DefaultServerMetrics w"
          using fr by (simp add: w'_def mapStore_def)
        show "defaultServerMetricsPromRegistration w' =
                  (defaultServerMetricsPromRegistration w)(reg \<mapsto> ())"
          using fr by (simp add: w'_def mapStore_def)
        show "\<not> defaultServerMetricsPromRegistrationMu w'" by (simp add: w'_def)
        show "trace w' = trace w @ [MuLock, MapLookup reg False]
             @ map (\<lambda>c. RegisterCall reg c None) (instrumentSequence (DefaultServerMetrics w))
             @ [MapStore reg, MuUnlock]"
          using sh by (simp add: w'_def mapStore_def w2_def cs_def)
        show "held (registryHeap w') =
             held (registryHeap w) \<union> set (instrumentSequence (DefaultServerMetrics w))"
          if "honoursContract (impl reg) held" for held
          using held3 [OF that] sh by (simp add: w'_def mapStore_def cs_def)
        show "Registerer_hashable (impl reg)" by (rule hash)
      qed
    next
      case (Some e)
      with registerInOrder_shape [OF rio] Returns obtain c rest where
        sh: "cs = registered @ c # rest"
          "trace w3 = trace w2 @ map (\<lambda>c. RegisterCall reg c None) registered
                            @ [RegisterCall reg c (Some e)]"
        by auto
      obtain lr w4 where ul: "unregisterLoop impl reg registered w3 = (lr, w4)"
        by (cases "unregisterLoop impl reg registered w3")
      have fr4: "DefaultServerMetrics w4 = DefaultServerMetrics w"
        "defaultServerMetricsPromRegistration w4 = defaultServerMetricsPromRegistration w"
        "defaultServerMetricsPromRegistrationMu w4"
        using unregisterLoop_frame [OF ul] fr by simp_all
      show thesis
      proof (cases lr)
        case Panics
        from unregisterLoop_panics [OF ul [unfolded Panics]] obtain before u after bs where
          up: "registered = before @ u # after" "length bs = length before"
            "trace w4 = trace w3 @ map (\<lambda>(c, b). UnregisterCall reg c b) (zip before bs)
                  @ [UnregisterPanic reg u]"
          by blast
        show thesis
        proof (rule unregister_panic)
          show "RegisterDefaultServerMetricsWithRegisterer impl reg w = Inl (Panic w4)"
            using call Some Returns ul Panics
            by (simp add: finish_def returning_def deferred_def)
          show "instrumentSequence (DefaultServerMetrics w) = registered @ c # rest"
            using sh(1) by (simp add: cs_def)
          show "registered = before @ u # after" by (rule up(1))
          show "length bs = length before" by (rule up(2))
          show "DefaultServerMetrics w4 = DefaultServerMetrics w" by (rule fr4(1))
          show "defaultServerMetricsPromRegistration w4 = defaultServerMetricsPromRegistration w"
            by (rule fr4(2))
          show "defaultServerMetricsPromRegistrationMu w4" by (rule fr4(3))
          show "trace w4 = trace w @ [MuLock, MapLookup reg False]
             @ map (\<lambda>c. RegisterCall reg c None) registered
             @ [RegisterCall reg c (Some e)]
             @ map (\<lambda>(c, b). UnregisterCall reg c b) (zip before bs)
             @ [UnregisterPanic reg u]"
            using sh(2) up(3) by (simp add: w2_def)
          show "Registerer_hashable (impl reg)" by (rule hash)
        qed
      next
        case lret: (Returns x)
        from unregisterLoop_returns [OF ul [unfolded lret]] obtain bs where
          bs: "length bs = length registered"
            "trace w4 = trace w3 @ map (\<lambda>(c, b). UnregisterCall reg c b) (zip registered bs)"
          by blast
        define w' where "w' = w4\<lparr>defaultServerMetricsPromRegistrationMu := False,
                       trace := trace w4 @ [MuUnlock]\<rparr>"
        show thesis
        proof (rule failure)
          show "RegisterDefaultServerMetricsWithRegisterer impl reg w = Inr ((False, Some e), w')"
            using call Some Returns ul lret fr4
            by (simp add: finish_def returning_def deferred_def Unlock_def w'_def)
          show "instrumentSequence (DefaultServerMetrics w) = registered @ c # rest"
            using sh(1) by (simp add: cs_def)
          show "length bs = length registered" by (rule bs(1))
          show "DefaultServerMetrics w' = DefaultServerMetrics w"
            using fr4 by (simp add: w'_def)
          show "defaultServerMetricsPromRegistration w' = defaultServerMetricsPromRegistration w"
            using fr4 by (simp add: w'_def)
          show "\<not> defaultServerMetricsPromRegistrationMu w'" by (simp add: w'_def)
          show "trace w' = trace w @ [MuLock, MapLookup reg False]
                   @ map (\<lambda>c. RegisterCall reg c None) registered
                   @ [RegisterCall reg c (Some e)]
                   @ map (\<lambda>(c, b). UnregisterCall reg c b) (zip registered bs)
                   @ [MuUnlock]"
            using sh bs by (simp add: w'_def w2_def)
          show "held (registryHeap w') = held (registryHeap w) - set registered"
            if hc: "honoursContract (impl reg) held" for held
          proof -
            have "held (registryHeap w') = held (registryHeap w3) - set registered"
              using unregisterLoop_held [where impl = impl and reg = reg, OF hc
                  ul [unfolded lret]]
              by (simp add: w'_def)
            with held3 [OF hc] show ?thesis by auto
          qed
          show "Registerer_hashable (impl reg)" by (rule hash)
        qed
      qed
    qed
  qed
qed

lemma call_returns_free:
  "RegisterDefaultServerMetricsWithRegisterer impl reg w = Inr x \<Longrightarrow>
     \<not> defaultServerMetricsPromRegistrationMu w"
  using call_held [of w impl reg] by auto

lemmas example_defs = freshWorld_def plainMetrics_def histogramMetrics_def startedCounter_def
  handledCounter_def msgReceivedCounter_def msgSentCounter_def handlingHistogram_def
  sharedRegistry_def nameRegistry_def foreignCollector_def registeredWorld_def
  registeredWith_def flaggedMetrics_def faultyRegisterers_def nilRegisterer_def
  unhashableRegisterer_def brokenUnregister_def

lemmas run_defs = RegisterDefaultServerMetricsWithRegisterer_def Lock_def Unlock_def
  mapLookup_def mapStore_def callRegister_def callUnregister_def deferred_def
  returning_def panicking_def

lemma first_registration_run:
  "RegisterDefaultServerMetricsWithRegisterer sharedRegistry 0 (freshWorld plainMetrics [])
     = Inr ((False, None), registeredWorld)"
  by (simp add: example_defs run_defs)

lemma registeredWorld_facts:
  "\<not> defaultServerMetricsPromRegistrationMu registeredWorld"
  "defaultServerMetricsPromRegistration registeredWorld 0 \<noteq> None"
  "defaultServerMetricsPromRegistration registeredWorld (Suc 0) = None"
  by (simp_all add: registeredWorld_def registeredWith_def freshWorld_def)

lemma conflict_run:
  "RegisterDefaultServerMetricsWithRegisterer sharedRegistry 0
       (freshWorld histogramMetrics [foreignCollector])
     = Inr ((False, Some ''descriptor conflicts with a registered descriptor of the same name''),
            (freshWorld histogramMetrics [foreignCollector])
              \<lparr>trace := [MuLock, MapLookup 0 False,
                         RegisterCall 0 startedCounter None, RegisterCall 0 handledCounter None,
                         RegisterCall 0 msgReceivedCounter
                           (Some ''descriptor conflicts with a registered descriptor of the same name''),
                         UnregisterCall 0 startedCounter True, UnregisterCall 0 handledCounter True,
                         MuUnlock]\<rparr>)"
  by (simp add: example_defs run_defs)

lemma registerAttempts_append:
  "registerAttempts (xs @ ys) = registerAttempts xs @ registerAttempts ys"
  by (induction xs rule: registerAttempts.induct) simp_all

lemma registerAttempts_registered:
  "registerAttempts (map (\<lambda>c. RegisterCall reg c None) cs) = map (\<lambda>c. (c, None)) cs"
  by (induction cs) simp_all

lemma registerAttempts_unregistered:
  "registerAttempts (map (\<lambda>(c, b). UnregisterCall reg c b) ps) = []"
  by (induction ps) auto

lemma call_attempts:
  assumes ret: "RegisterDefaultServerMetricsWithRegisterer impl reg w = Inr ((a, err), w')"
    and fresh: "defaultServerMetricsPromRegistration w reg = None"
  shows "\<exists>n. n \<le> length (instrumentSequence (DefaultServerMetrics w))
           \<and> registerAttempts (drop (length (trace w)) (trace w')) =
               map (\<lambda>c. (c, None)) (take n (instrumentSequence (DefaultServerMetrics w)))
               @ (case err of None \<Rightarrow> []
                  | Some e \<Rightarrow> [(instrumentSequence (DefaultServerMetrics w) ! n, Some e)])
           \<and> (err = None \<longrightarrow> n = length (instrumentSequence (DefaultServerMetrics w)))
           \<and> (err \<noteq> None \<longrightarrow> n < length (instrumentSequence (DefaultServerMetrics w)))"
proof -
  have free: "\<not> defaultServerMetricsPromRegistrationMu w" by (rule call_returns_free [OF ret])
  from free fresh show ?thesis
  proof (cases rule: call_outcome [where impl = impl])
    case (success w1)
    with ret have eq: "err = None" "w' = w1" by simp_all
    have "registerAttempts (drop (length (trace w)) (trace w')) =
            map (\<lambda>c. (c, None)) (instrumentSequence (DefaultServerMetrics w))"
      using success(5) eq
      by (simp add: registerAttempts_append registerAttempts_registered)
    with eq show ?thesis
      by (intro exI [of _ "length (instrumentSequence (DefaultServerMetrics w))"]) simp
  next
    case (failure w1 e registered c rest bs)
    with ret have eq: "err = Some e" "w' = w1" by simp_all
    have "registerAttempts (drop (length (trace w)) (trace w')) =
            map (\<lambda>c. (c, None)) registered @ [(c, Some e)]"
      using failure(7) eq
      by (simp add: registerAttempts_append registerAttempts_registered
          registerAttempts_unregistered)
    with eq failure(2) show ?thesis
      by (intro exI [of _ "length registered"]) simp
  qed (use ret in simp_all)
qed

lemma nameRegistry_contract: "honoursContract nameRegistry set"
  by (auto simp: honoursContract_def nameRegistry_def)

lemma histogram_run:
  "RegisterDefaultServerMetricsWithRegisterer sharedRegistry 0 (freshWorld histogramMetrics [])
     = Inr ((False, None),
            registeredWith histogramMetrics
              [startedCounter, handledCounter, msgReceivedCounter, msgSentCounter,
               handlingHistogram])"
  by (simp add: example_defs run_defs)

lemma plain_run:
  "RegisterDefaultServerMetricsWithRegisterer sharedRegistry 0 (freshWorld plainMetrics [])
     = Inr ((False, None),
            registeredWith plainMetrics
              [startedCounter, handledCounter, msgReceivedCounter, msgSentCounter])"
  by (simp add: example_defs run_defs)


lemma success_is_fresh:
  assumes "RegisterDefaultServerMetricsWithRegisterer impl reg w = Inr ((False, err), w')"
  shows "defaultServerMetricsPromRegistration w reg = None"
proof (rule ccontr)
  assume "defaultServerMetricsPromRegistration w reg \<noteq> None"
  from call_already [OF call_returns_free [OF assms] this, of impl] assms show False by simp
qed

lemma call_success_held:
  assumes ret: "RegisterDefaultServerMetricsWithRegisterer impl reg w = Inr ((False, None), w')"
    and hc: "honoursContract (impl reg) held"
  shows "held (registryHeap w') =
           held (registryHeap w) \<union> set (instrumentSequence (DefaultServerMetrics w))"
proof -
  from call_returns_free [OF ret] success_is_fresh [OF ret] show ?thesis
  proof (cases rule: call_outcome [where impl = impl])
    case (success w1)
    with ret have "w' = w1" by simp
    with success(6) [OF hc] show ?thesis by simp
  next
    case (failure w1 e registered c rest bs)
    with ret show ?thesis by simp
  qed (use ret in simp_all)
qed

lemma instrumentSequence_Cons:
  "\<exists>rest. instrumentSequence m = serverStartedCounter m # rest"
  by (simp add: instrumentSequence_def)

lemma call_first_attempt:
  assumes ret: "RegisterDefaultServerMetricsWithRegisterer impl reg w = Inr ((a, err), w')"
    and fresh: "defaultServerMetricsPromRegistration w reg = None"
  shows "\<exists>e1 more. registerAttempts (drop (length (trace w)) (trace w')) =
           (serverStartedCounter (DefaultServerMetrics w), e1) # more"
proof -
  obtain rest where seq: "instrumentSequence (DefaultServerMetrics w) =
      serverStartedCounter (DefaultServerMetrics w) # rest"
    using instrumentSequence_Cons by blast
  from call_attempts [OF ret fresh] obtain n where
    n: "registerAttempts (drop (length (trace w)) (trace w')) =
               map (\<lambda>c. (c, None)) (take n (instrumentSequence (DefaultServerMetrics w)))
               @ (case err of None \<Rightarrow> []
                  | Some e \<Rightarrow> [(instrumentSequence (DefaultServerMetrics w) ! n, Some e)])"
      "err = None \<longrightarrow> n = length (instrumentSequence (DefaultServerMetrics w))"
    by blast
  show ?thesis
  proof (cases n)
    case 0
    with n(2) seq obtain e where "err = Some e" by (cases err) auto
    with n(1) 0 seq show ?thesis by simp
  next
    case (Suc k)
    with n(1) seq show ?thesis by simp
  qed
qed

lemma perform_record:
  assumes "perform ms x w = Inr w'"
  shows "defaultServerMetricsPromRegistration w \<subseteq>\<^sub>m defaultServerMetricsPromRegistration w'"
proof (cases x)
  case (CallRegister server)
  with assms show ?thesis by (auto simp: Register_def)
next
  case (CallEnableHandlingTimeHistogram opts)
  with assms show ?thesis by (auto simp: EnableHandlingTimeHistogram_def)
next
  case op: (CallRegisterDefaultServerMetricsWithRegisterer reg)
  have free: "\<not> defaultServerMetricsPromRegistrationMu w"
    using assms op call_held [of w "registererMethods ms" reg] by auto
  show ?thesis
  proof (cases "defaultServerMetricsPromRegistration w reg = None")
    case False
    from call_already [OF free False, of "registererMethods ms"] assms op show ?thesis by auto
  next
    case True
    from free True show ?thesis
    proof (cases rule: call_outcome [where impl = "registererMethods ms"])
      case (success w1)
      with assms op True show ?thesis by (auto simp: map_le_def)
    next
      case (failure w1 e registered c rest bs)
      with assms op show ?thesis by auto
    next
      case unhashable
      with assms op show ?thesis by auto
    next
      case (register_panic w1 registered c rest)
      with assms op True show ?thesis by (auto simp: map_le_def)
    next
      case (unregister_panic w1 e registered c rest before u after bs)
      with assms op show ?thesis by auto
    qed
  qed
qed

lemma performAll_record:
  "performAll ms xs w = Inr w' \<Longrightarrow>
     defaultServerMetricsPromRegistration w \<subseteq>\<^sub>m defaultServerMetricsPromRegistration w'"
proof (induction xs arbitrary: w)
  case Nil
  then show ?case by simp
next
  case (Cons x xs)
  then obtain w1 where 1: "perform ms x w = Inr w1" and 2: "performAll ms xs w1 = Inr w'"
    by (auto split: sum.splits)
  from perform_record [OF 1] Cons.IH [OF 2] show ?case by (rule map_le_trans)
qed

lemma call_record:
  assumes ret: "RegisterDefaultServerMetricsWithRegisterer impl reg w = Inr ((a, err), w')"
  shows "(err \<noteq> None \<longrightarrow>
            defaultServerMetricsPromRegistration w' = defaultServerMetricsPromRegistration w)
         \<and> (defaultServerMetricsPromRegistration w' \<noteq> defaultServerMetricsPromRegistration w \<longrightarrow>
              \<not> a \<and> err = None
              \<and> defaultServerMetricsPromRegistration w' =
                  (defaultServerMetricsPromRegistration w)(reg \<mapsto> ())
              \<and> registerAttempts (drop (length (trace w)) (trace w')) =
                  map (\<lambda>c. (c, None)) (instrumentSequence (DefaultServerMetrics w)))"
proof -
  have free: "\<not> defaultServerMetricsPromRegistrationMu w" by (rule call_returns_free [OF ret])
  show ?thesis
  proof (cases "defaultServerMetricsPromRegistration w reg = None")
    case False
    from call_already [OF free False, of impl] ret show ?thesis by auto
  next
    case True
    from free True show ?thesis
    proof (cases rule: call_outcome [where impl = impl])
      case (success w1)
      with ret have eq: "w' = w1" "err = None" "\<not> a" by simp_all
      from call_attempts [OF ret True] eq(2)
      have "registerAttempts (drop (length (trace w)) (trace w')) =
              map (\<lambda>c. (c, None)) (instrumentSequence (DefaultServerMetrics w))"
        by auto
      with success(3) eq show ?thesis by simp
    next
      case (failure w1 e registered c rest bs)
      with ret show ?thesis by auto
    qed (use ret in simp_all)
  qed
qed

lemma example_sequence_run:
  "\<exists>w'. performAll exampleMethods
      [CallRegisterDefaultServerMetricsWithRegisterer 0,
       CallEnableHandlingTimeHistogram [],
       CallRegister (),
       CallRegisterDefaultServerMetricsWithRegisterer 0,
       CallRegisterDefaultServerMetricsWithRegisterer 1]
      (freshWorld plainMetrics []) = Inr w'
    \<and> defaultServerMetricsPromRegistration w' = [0 \<mapsto> ()]"
  by (simp add: example_defs run_defs exampleMethods_def Register_def
      EnableHandlingTimeHistogram_def)

lemma zeroed_zeroed: "zeroed A (zeroed B series) = zeroed (A \<union> B) series"
  by (auto simp: zeroed_def fun_eq_iff split: option.splits)

lemma zeroed_empty: "zeroed {} series = series"
  by (simp add: zeroed_def)

lemma touchSeries_zeroed: "touchSeries c k series = zeroed {(c, k)} series"
  by (auto simp: touchSeries_def touch_def zeroed_def fun_eq_iff)

lemma fold_touch_handled:
  "fold (\<lambda>code. touchSeries c (labels, Some code)) codes series =
     zeroed ((\<lambda>code. (c, (labels, Some code))) ` set codes) series"
proof (induction codes arbitrary: series)
  case Nil
  show ?case by (simp add: zeroed_empty)
next
  case (Cons code codes)
  have "fold (\<lambda>code. touchSeries c (labels, Some code)) (code # codes) series =
        fold (\<lambda>code. touchSeries c (labels, Some code)) codes
          (touchSeries c (labels, Some code) series)"
    by simp
  also have "\<dots> = zeroed ((\<lambda>code. (c, (labels, Some code))) ` set codes)
                     (touchSeries c (labels, Some code) series)"
    by (rule Cons)
  also have "\<dots> = zeroed ((\<lambda>code. (c, (labels, Some code))) ` set codes \<union> {(c, (labels, Some code))})
                     series"
    by (simp only: touchSeries_zeroed zeroed_zeroed)
  also have "(\<lambda>code. (c, (labels, Some code))) ` set codes \<union> {(c, (labels, Some code))} =
             (\<lambda>code. (c, (labels, Some code))) ` set (code # codes)"
    by auto
  finally show ?case .
qed

lemma touchTriple_zeroed:
  "touchTriple allCodes m labels series = zeroed (expectedSeries allCodes m labels) series"
proof -
  have "(\<lambda>code. (serverHandledCounter m, labels, Some code)) ` set allCodes
          \<union> {(serverStartedCounter m, labels, None)} = expectedSeries allCodes m labels"
    by (auto simp: expectedSeries_def)
  then show ?thesis
    by (simp add: touchTriple_def fold_touch_handled touchSeries_zeroed zeroed_zeroed)
qed

lemma fold_touchTriple:
  "fold (touchTriple allCodes m) ls series =
     zeroed (\<Union>labels \<in> set ls. expectedSeries allCodes m labels) series"
proof (induction ls arbitrary: series)
  case Nil
  show ?case by (simp add: zeroed_empty)
next
  case (Cons l ls)
  have "fold (touchTriple allCodes m) (l # ls) series =
        fold (touchTriple allCodes m) ls (touchTriple allCodes m l series)"
    by simp
  also have "\<dots> = zeroed (\<Union>labels \<in> set ls. expectedSeries allCodes m labels)
                     (touchTriple allCodes m l series)"
    by (rule Cons)
  also have "\<dots> = zeroed ((\<Union>labels \<in> set ls. expectedSeries allCodes m labels)
                            \<union> expectedSeries allCodes m l) series"
    by (simp only: touchTriple_zeroed zeroed_zeroed)
  also have "(\<Union>labels \<in> set ls. expectedSeries allCodes m labels) \<union> expectedSeries allCodes m l
        = (\<Union>labels \<in> set (l # ls). expectedSeries allCodes m labels)"
    by auto
  finally show ?case .
qed

lemma InitializeMetrics_zeroed:
  "InitializeMetrics allCodes m server series =
     zeroed (\<Union>labels \<in> set (triples server). expectedSeries allCodes m labels) series"
  by (simp add: InitializeMetrics_def fold_touchTriple)

lemma triples_member:
  "(svc, ms) \<in> set server \<Longrightarrow> (mth, ct) \<in> set ms \<Longrightarrow>
     \<lparr>call_type = ct, service = svc, method_name = mth\<rparr> \<in> set (triples server)"
  by (force simp: triples_def)

lemma threadRun_add:
  "threadRun impl reg n cfg = Some cfg' \<Longrightarrow>
     threadRun impl reg (n + k) cfg = threadRun impl reg k cfg'"
  by (induction n arbitrary: cfg) (auto split: option.splits)

lemma threadRun_step:
  "threadRun impl reg n cfg = Some (p, w) \<Longrightarrow> threadStep impl reg p w = Some cfg' \<Longrightarrow>
     threadRun impl reg (Suc n) cfg = Some cfg'"
  using threadRun_add [of impl reg n cfg "(p, w)" 1] by simp

lemma nextInstrument_seq:
  "nextInstrument k m =
     (if k < length (instrumentSequence m) then Some (instrumentSequence m ! k) else None)"
  by (induction k m rule: nextInstrument.induct) (auto simp: instrumentSequence_def)

lemma run_rollback:
  assumes "defaultServerMetricsPromRegistrationMu w"
  shows "\<exists>n p a. threadRun impl reg n (AtRollback cs e, w) = Some (p, a)
           \<and> handed p a = Some (returning impl reg cs (Some e) w)"
  using assms
proof (induction cs arbitrary: w)
  case Nil
  then have "threadRun impl reg (Suc 0) (AtRollback [] e, w) =
               Some (Returned False (Some e),
                     w\<lparr>defaultServerMetricsPromRegistrationMu := False,
                       trace := trace w @ [MuUnlock]\<rparr>)"
    by (simp add: Unlock_def)
  moreover have "returning impl reg [] (Some e) w =
      Inr ((False, Some e), w\<lparr>defaultServerMetricsPromRegistrationMu := False,
                       trace := trace w @ [MuUnlock]\<rparr>)"
    using Nil by (simp add: returning_def deferred_def Unlock_def)
  ultimately have "threadRun impl reg (Suc 0) (AtRollback [] e, w) =
               Some (Returned False (Some e),
                     w\<lparr>defaultServerMetricsPromRegistrationMu := False,
                       trace := trace w @ [MuUnlock]\<rparr>)
      \<and> handed (Returned False (Some e) :: 'b pc)
           (w\<lparr>defaultServerMetricsPromRegistrationMu := False,
                       trace := trace w @ [MuUnlock]\<rparr>)
         = Some (returning impl reg [] (Some e) w)"
    by simp
  then show ?case by blast
next
  case (Cons c cs)
  obtain r w1 where cu: "callUnregister impl reg c w = (r, w1)"
    by (cases "callUnregister impl reg c w")
  have mu1: "defaultServerMetricsPromRegistrationMu w1"
    using callUnregister_frame(3) [of impl reg c w] cu Cons.prems by simp
  show ?case
  proof (cases r)
    case Panics
    have "threadRun impl reg (Suc 0) (AtRollback (c # cs) e, w) = Some (Panicked True, w1)"
      using cu Panics by simp
    moreover have "returning impl reg (c # cs) (Some e) w = Inl (Panic w1)"
      using cu Panics by (simp add: returning_def deferred_def)
    ultimately have "threadRun impl reg (Suc 0) (AtRollback (c # cs) e, w) = Some (Panicked True, w1)
        \<and> handed (Panicked True :: 'b pc) w1 = Some (returning impl reg (c # cs) (Some e) w)"
      by simp
    then show ?thesis by blast
  next
    case (Returns u)
    from Cons.IH [OF mu1] obtain n p a where
      n: "threadRun impl reg n (AtRollback cs e, w1) = Some (p, a)"
         "handed p a = Some (returning impl reg cs (Some e) w1)"
      by blast
    have "threadRun impl reg (Suc n) (AtRollback (c # cs) e, w) = Some (p, a)"
      using cu Returns n(1) by simp
    moreover have "returning impl reg (c # cs) (Some e) w = returning impl reg cs (Some e) w1"
      using cu Returns by (simp add: returning_def deferred_def)
    ultimately have "threadRun impl reg (Suc n) (AtRollback (c # cs) e, w) = Some (p, a)
        \<and> handed p a = Some (returning impl reg (c # cs) (Some e) w)"
      using n(2) by simp
    then show ?thesis by blast
  qed
qed

lemma run_store:
  assumes "defaultServerMetricsPromRegistrationMu w"
  shows "\<exists>n p a. threadRun impl reg n (AtStore, w) = Some (p, a)
           \<and> handed p a = Some (returning impl reg registered None w)"
proof -
  let ?a = "(mapStore reg w)\<lparr>defaultServerMetricsPromRegistrationMu := False,
                    trace := trace (mapStore reg w) @ [MuUnlock]\<rparr>"
  have "threadRun impl reg (Suc (Suc 0)) (AtStore, w) = Some (Returned False None, ?a)"
    using assms by (simp add: Unlock_def mapStore_def)
  moreover have "returning impl reg registered None w = Inr ((False, None), ?a)"
    using assms by (simp add: returning_def deferred_def Unlock_def mapStore_def)
  ultimately have "threadRun impl reg (Suc (Suc 0)) (AtStore, w) = Some (Returned False None, ?a)
      \<and> handed (Returned False None :: 'b pc) ?a = Some (returning impl reg registered None w)"
    by simp
  then show ?thesis by blast
qed

lemma run_panic_store:
  assumes "defaultServerMetricsPromRegistrationMu w"
  shows "\<exists>n p a. threadRun impl reg n (AtPanicStore, w) = Some (p, a)
           \<and> handed p a = Some (panicking impl reg registered None w)"
proof -
  let ?a = "(mapStore reg w)\<lparr>defaultServerMetricsPromRegistrationMu := False,
                    trace := trace (mapStore reg w) @ [MuUnlock]\<rparr>"
  have "threadRun impl reg (Suc (Suc 0)) (AtPanicStore, w) = Some (Panicked False, ?a)"
    using assms by (simp add: Unlock_def mapStore_def)
  moreover have "panicking impl reg registered None w = Inl (Panic ?a)"
    using assms by (simp add: panicking_def deferred_def Unlock_def mapStore_def)
  ultimately have "threadRun impl reg (Suc (Suc 0)) (AtPanicStore, w) = Some (Panicked False, ?a)
      \<and> handed (Panicked False :: 'b pc) ?a = Some (panicking impl reg registered None w)"
    by simp
  then show ?thesis by blast
qed

lemma run_register:
  assumes "defaultServerMetricsPromRegistrationMu w"
    and "k \<le> length (instrumentSequence (DefaultServerMetrics w))"
  shows "\<exists>n p a. threadRun impl reg n (AtRegister k done, w) = Some (p, a)
           \<and> handed p a =
               Some (finish impl reg done
                       (registerInOrder impl reg
                          (drop k (instrumentSequence (DefaultServerMetrics w))) w))"
  using assms
proof (induction "length (instrumentSequence (DefaultServerMetrics w)) - k"
        arbitrary: k w "done")
  case 0
  then have k: "k = length (instrumentSequence (DefaultServerMetrics w))" by simp
  have st: "threadStep impl reg (AtRegister k done) w = Some (AtStore, w)"
    by (simp add: nextInstrument_seq k)
  from run_store [OF "0.prems"(1), of impl reg "done"] obtain n p a where
    n: "threadRun impl reg n (AtStore, w) = Some (p, a)"
       "handed p a = Some (returning impl reg done None w)"
    by blast
  have "threadRun impl reg (Suc n) (AtRegister k done, w) = Some (p, a)"
    using st n(1) by simp
  moreover have "finish impl reg done
                       (registerInOrder impl reg
                          (drop k (instrumentSequence (DefaultServerMetrics w))) w)
                 = returning impl reg done None w"
    using k by (simp add: finish_def)
  ultimately have "threadRun impl reg (Suc n) (AtRegister k done, w) = Some (p, a)
           \<and> handed p a =
               Some (finish impl reg done
                       (registerInOrder impl reg
                          (drop k (instrumentSequence (DefaultServerMetrics w))) w))"
    using n(2) by simp
  then show ?case by blast
next
  case (Suc d)
  let ?seq = "instrumentSequence (DefaultServerMetrics w)"
  from Suc.hyps(2) have lt: "k < length ?seq" by simp
  then have dr: "drop k ?seq = (?seq ! k) # drop (Suc k) ?seq"
    by (simp add: Cons_nth_drop_Suc)
  obtain r w1 where cr: "callRegister impl reg (?seq ! k) w = (r, w1)"
    by (cases "callRegister impl reg (?seq ! k) w")
  have fr: "DefaultServerMetrics w1 = DefaultServerMetrics w"
    "defaultServerMetricsPromRegistrationMu w1"
    using callRegister_frame [of impl reg "?seq ! k" w] cr Suc.prems(1) by simp_all
  note fs = finish_step [OF cr, of "done" "drop (Suc k) ?seq"]
  have goal: "\<exists>n p a. threadRun impl reg n (AtRegister k done, w) = Some (p, a)
           \<and> handed p a = Some (finish impl reg done
                (registerInOrder impl reg ((?seq ! k) # drop (Suc k) ?seq) w))"
  proof (cases r)
    case Panics
    have st: "threadStep impl reg (AtRegister k done) w = Some (AtPanicStore, w1)"
      using lt cr Panics by (simp add: nextInstrument_seq)
    from run_panic_store [OF fr(2), of impl reg "done"] obtain n p a where
      n: "threadRun impl reg n (AtPanicStore, w1) = Some (p, a)"
         "handed p a = Some (panicking impl reg done None w1)"
      by blast
    have "threadRun impl reg (Suc n) (AtRegister k done, w) = Some (p, a)"
      using st n(1) by simp
    moreover have "handed p a = Some (finish impl reg done
                (registerInOrder impl reg ((?seq ! k) # drop (Suc k) ?seq) w))"
      unfolding fs using Panics n(2) by simp
    ultimately show ?thesis by blast
  next
    case (Returns err)
    show ?thesis
    proof (cases err)
      case (Some e)
      have st: "threadStep impl reg (AtRegister k done) w = Some (AtRollback done e, w1)"
        using lt cr Returns Some by (simp add: nextInstrument_seq)
      from run_rollback [OF fr(2), of impl reg "done" e] obtain n p a where
        n: "threadRun impl reg n (AtRollback done e, w1) = Some (p, a)"
           "handed p a = Some (returning impl reg done (Some e) w1)"
        by blast
      have "threadRun impl reg (Suc n) (AtRegister k done, w) = Some (p, a)"
        using st n(1) by simp
      moreover have "handed p a = Some (finish impl reg done
                  (registerInOrder impl reg ((?seq ! k) # drop (Suc k) ?seq) w))"
        unfolding fs using Returns Some n(2) by simp
      ultimately show ?thesis by blast
    next
      case None
      have st: "threadStep impl reg (AtRegister k done) w =
                  Some (AtRegister (Suc k) (done @ [?seq ! k]), w1)"
        using lt cr Returns None by (simp add: nextInstrument_seq)
      have d: "d = length (instrumentSequence (DefaultServerMetrics w1)) - Suc k"
        using Suc.hyps(2) fr(1) by simp
      have le: "Suc k \<le> length (instrumentSequence (DefaultServerMetrics w1))"
        using lt fr(1) by simp
      from Suc.hyps(1) [OF d fr(2) le, of "done @ [?seq ! k]"] fr(1)
      obtain n p a where
        n: "threadRun impl reg n (AtRegister (Suc k) (done @ [?seq ! k]), w1) = Some (p, a)"
           "handed p a = Some (finish impl reg (done @ [?seq ! k])
                 (registerInOrder impl reg (drop (Suc k) ?seq) w1))"
        by auto
      have "threadRun impl reg (Suc n) (AtRegister k done, w) = Some (p, a)"
        using st n(1) by simp
      moreover have "handed p a = Some (finish impl reg done
                  (registerInOrder impl reg ((?seq ! k) # drop (Suc k) ?seq) w))"
        unfolding fs using Returns None n(2) by simp
      ultimately show ?thesis by blast
    qed
  qed
  then show ?case unfolding dr .
qed

text \<open>
  A goroutine that runs alone runs the function: it leaves it, and hands to its caller
  what the function does.
\<close>

lemma run_alone:
  assumes free: "\<not> defaultServerMetricsPromRegistrationMu w"
  shows "\<exists>n p w'. threadRun impl reg n (AtLock, w) = Some (p, w')
           \<and> handed p w' = Some (RegisterDefaultServerMetricsWithRegisterer impl reg w)"
proof (cases "defaultServerMetricsPromRegistration w reg = None")
  case False
  have "threadRun impl reg (Suc (Suc (Suc 0))) (AtLock, w) =
          Some (Returned True None, w\<lparr>trace := trace w @ [MuLock, MapLookup reg True, MuUnlock]\<rparr>)"
    using free False by (auto simp: Lock_def mapLookup_def Unlock_def)
  with call_already [OF free False, of impl]
  have "threadRun impl reg (Suc (Suc (Suc 0))) (AtLock, w) =
          Some (Returned True None, w\<lparr>trace := trace w @ [MuLock, MapLookup reg True, MuUnlock]\<rparr>)
     \<and> handed (Returned True None :: 'b pc)
          (w\<lparr>trace := trace w @ [MuLock, MapLookup reg True, MuUnlock]\<rparr>)
        = Some (RegisterDefaultServerMetricsWithRegisterer impl reg w)"
    by simp
  then show ?thesis by blast
next
  case True
  show ?thesis
  proof (cases "Registerer_hashable (impl reg)")
    case False
    let ?w2 = "w\<lparr>defaultServerMetricsPromRegistrationMu := True,
                      trace := trace w @ [MuLock, MapLookupPanic reg]\<rparr>"
    have "threadRun impl reg (Suc (Suc 0)) (AtLock, w) = Some (Panicked True, ?w2)"
      using free True False by (simp add: Lock_def mapLookup_def)
    with call_unhashable [where impl = impl and reg = reg, OF free True False]
    have "threadRun impl reg (Suc (Suc 0)) (AtLock, w) = Some (Panicked True, ?w2)
      \<and> handed (Panicked True :: 'b pc) ?w2
          = Some (RegisterDefaultServerMetricsWithRegisterer impl reg w)"
      by simp
    then show ?thesis by blast
  next
    case hash: True
    let ?w2 = "w\<lparr>defaultServerMetricsPromRegistrationMu := True,
                      trace := trace w @ [MuLock, MapLookup reg False]\<rparr>"
    have two: "threadRun impl reg (Suc (Suc 0)) (AtLock, w) = Some (AtRegister 0 [], ?w2)"
      using free True hash by (simp add: Lock_def mapLookup_def)
    from run_register [of ?w2 0 impl reg "[]"]
    obtain n p a where
      n: "threadRun impl reg n (AtRegister 0 [], ?w2) = Some (p, a)"
      "handed p a = Some (finish impl reg []
           (registerInOrder impl reg (instrumentSequence (DefaultServerMetrics w)) ?w2))"
      by auto
    from threadRun_add [OF two, of n] n(1)
    have "threadRun impl reg (Suc (Suc 0) + n) (AtLock, w) = Some (p, a)"
      by simp
    moreover have "handed p a = Some (RegisterDefaultServerMetricsWithRegisterer impl reg w)"
      using call_fresh [where impl = impl and reg = reg, OF free True hash] n(2) by simp
    ultimately show ?thesis by blast
  qed
qed

lemma threadStep_not_AtLock:
  "threadStep impl reg p w = Some (p', w') \<Longrightarrow> p' \<noteq> AtLock"
  by (induction impl reg p w rule: threadStep.induct)
     (auto split: sum.splits prod.splits option.splits bool.splits outcome.splits)

lemma threadStep_mutex:
  "threadStep impl reg p w = Some (p', w') \<Longrightarrow>
     defaultServerMetricsPromRegistrationMu w = inside p \<Longrightarrow>
     defaultServerMetricsPromRegistrationMu w' = inside p'"
proof (induction impl reg p w rule: threadStep.induct)
  case (1 impl reg w)
  then show ?case by (auto simp: Lock_def split: if_splits)
next
  case (2 impl reg w)
  then show ?case
    by (auto simp: mapLookup_def split: if_splits bool.splits option.splits)
next
  case (3 impl reg w)
  then show ?case by (auto simp: Unlock_def split: if_splits)
next
  case (4 impl reg k registeredMetrics w)
  show ?case
  proof (cases "nextInstrument k (DefaultServerMetrics w)")
    case None
    with 4 show ?thesis by auto
  next
    case (Some c)
    obtain r w1 where cr: "callRegister impl reg c w = (r, w1)"
      by (cases "callRegister impl reg c w")
    have "defaultServerMetricsPromRegistrationMu w1 = defaultServerMetricsPromRegistrationMu w"
      using callRegister_frame(3) [of impl reg c w] cr by simp
    with 4 Some cr show ?thesis by (auto split: outcome.splits option.splits)
  qed
next
  case (5 impl reg e w)
  then show ?case by (auto simp: Unlock_def split: if_splits)
next
  case (6 impl reg c cs e w)
  obtain r w1 where cu: "callUnregister impl reg c w = (r, w1)"
    by (cases "callUnregister impl reg c w")
  have "defaultServerMetricsPromRegistrationMu w1 = defaultServerMetricsPromRegistrationMu w"
    using callUnregister_frame(3) [of impl reg c w] cu by simp
  with 6 cu show ?case by (auto split: outcome.splits)
next
  case (7 impl reg w)
  then show ?case by (auto simp: mapStore_def)
next
  case (8 impl reg w)
  then show ?case by (auto simp: Unlock_def split: if_splits)
next
  case (9 impl reg w)
  then show ?case by (auto simp: mapStore_def)
next
  case (10 impl reg w)
  then show ?case by (auto simp: Unlock_def split: if_splits)
next
  case (11 impl reg a err w)
  then show ?case by simp
next
  case (12 impl reg holding w)
  then show ?case by simp
qed

lemma threadRun_mutex:
  "threadRun impl reg n (p, w) = Some (p', w') \<Longrightarrow>
     defaultServerMetricsPromRegistrationMu w = inside p \<Longrightarrow>
     defaultServerMetricsPromRegistrationMu w' = inside p'"
proof (induction n arbitrary: p w)
  case 0
  then show ?case by simp
next
  case (Suc n)
  then obtain p1 w1 where st: "threadStep impl reg p w = Some (p1, w1)"
    and run: "threadRun impl reg n (p1, w1) = Some (p', w')"
    by (auto split: option.splits)
  from Suc.IH [OF run threadStep_mutex [OF st Suc.prems(2)]] show ?case .
qed

lemma threadRun_not_AtLock:
  "threadRun impl reg (Suc n) (p, w) = Some (p', w') \<Longrightarrow> p' \<noteq> AtLock"
proof (induction n arbitrary: p w)
  case 0
  then show ?case by (auto split: option.splits dest: threadStep_not_AtLock)
next
  case (Suc n)
  then obtain p1 w1 where "threadRun impl reg (Suc n) (p1, w1) = Some (p', w')"
    by (auto split: option.splits)
  from Suc.IH [OF this] show ?case .
qed

lemma handed_no_step: "handed p w = Some r \<Longrightarrow> threadStep impl reg p w' = None"
  by (cases p) simp_all

lemma threadRun_handed:
  "handed p w = Some r \<Longrightarrow> threadRun impl reg n (p, w) = Some cfg \<Longrightarrow> n = 0 \<and> cfg = (p, w)"
  using handed_no_step [of p w r impl reg w] by (cases n) simp_all

lemma threadRun_unique:
  assumes "threadRun impl reg n cfg = Some (p, w)" and "handed p w = Some r"
    and "threadRun impl reg k cfg = Some (p', w')" and "handed p' w' = Some r'"
  shows "p' = p \<and> w' = w"
proof -
  have one: "p2 = p1 \<and> w2 = w1"
    if "n1 \<le> n2" "threadRun impl reg n1 cfg = Some (p1, w1)" "handed p1 w1 = Some r1"
      "threadRun impl reg n2 cfg = Some (p2, w2)"
    for n1 n2 p1 p2 w1 w2 r1
  proof -
    from threadRun_add [OF that(2), of "n2 - n1"] that(1,4)
    have "threadRun impl reg (n2 - n1) (p1, w1) = Some (p2, w2)"
      by simp
    from threadRun_handed [OF that(3) this] show ?thesis by simp
  qed
  show ?thesis
  proof (cases "n \<le> k")
    case True
    from one [OF True assms(1,2,3)] show ?thesis .
  next
    case False
    then have "k \<le> n" by simp
    from one [OF this assms(3,4,1)] show ?thesis by simp
  qed
qed

text \<open>A goroutine that has run alone until it left the function has run the function.\<close>

lemma run_alone_result:
  assumes "\<not> defaultServerMetricsPromRegistrationMu w"
    and "threadRun impl reg n (AtLock, w) = Some (p, w')"
    and "handed p w' = Some r"
  shows "RegisterDefaultServerMetricsWithRegisterer impl reg w = r"
proof -
  from run_alone [OF assms(1), of impl reg] obtain k p1 w1 where
    k: "threadRun impl reg k (AtLock, w) = Some (p1, w1)"
    and call: "handed p1 w1 = Some (RegisterDefaultServerMetricsWithRegisterer impl reg w)"
    by blast
  from threadRun_unique [OF k call assms(2,3)] call assms(3) show ?thesis by simp
qed

lemma first_step:
  "\<not> defaultServerMetricsPromRegistrationMu w \<Longrightarrow>
     threadStep impl reg AtLock w = Some (p', w') \<Longrightarrow>
     threadRun impl reg (Suc 0) (AtLock, w) = Some (p', w')"
  by simp

lemma AtLock_blocked:
  "defaultServerMetricsPromRegistrationMu w \<Longrightarrow> threadStep impl reg AtLock w = None"
  by (simp add: Lock_def)

lemma left_not_inside: "left p \<Longrightarrow> \<not> inside p"
  by (cases p) simp_all

lemma left_no_step: "left p \<Longrightarrow> threadStep impl reg p w = None"
  by (cases p) simp_all

lemma left_of_free:
  assumes "\<not> defaultServerMetricsPromRegistrationMu w0"
    and "threadRun impl reg n (AtLock, w0) = Some (p, w)"
    and "\<not> defaultServerMetricsPromRegistrationMu w" and "p \<noteq> AtLock"
  shows "left p"
proof -
  from threadRun_mutex [OF assms(2)] assms(1,3) have "\<not> inside p" by simp
  with assms(4) show ?thesis by (cases p) simp_all
qed

lemma serialised_step0:
  assumes free: "\<not> defaultServerMetricsPromRegistrationMu w0"
    and inv: "serialised impl reg0 reg1 w0 (p0, p1, w)"
  shows "serialised impl reg0 reg1 w0 (scheduleStep impl reg0 reg1 False (p0, p1, w))"
proof (cases "threadStep impl reg0 p0 w")
  case None
  with inv show ?thesis by simp
next
  case (Some cfg')
  obtain p0' w' where cfg': "cfg' = (p0', w')" by (cases cfg')
  note st = Some [unfolded cfg']
  have nl: "p0' \<noteq> AtLock" by (rule threadStep_not_AtLock [OF st])
  have res: "scheduleStep impl reg0 reg1 False (p0, p1, w) = (p0', p1, w')"
    using st by simp
  from inv consider
      (start) "p0 = AtLock" "p1 = AtLock" "w = w0"
    | (left) n where "p1 = AtLock" "p0 \<noteq> AtLock"
        "threadRun impl reg0 n (AtLock, w0) = Some (p0, w)"
    | (right) n where "p0 = AtLock" "p1 \<noteq> AtLock"
        "threadRun impl reg1 n (AtLock, w0) = Some (p1, w)"
    | (left_first) w1 n k where "p1 \<noteq> AtLock" "left p0"
        "threadRun impl reg0 n (AtLock, w0) = Some (p0, w1)"
        "threadRun impl reg1 k (AtLock, w1) = Some (p1, w)"
    | (right_first) w1 n k where "p0 \<noteq> AtLock" "left p1"
        "threadRun impl reg1 n (AtLock, w0) = Some (p1, w1)"
        "threadRun impl reg0 k (AtLock, w1) = Some (p0, w)"
    unfolding serialised_def by auto
  then show ?thesis
  proof cases
    case start
    with st free have "threadRun impl reg0 (Suc 0) (AtLock, w0) = Some (p0', w')" by simp
    then have "\<exists>n. threadRun impl reg0 n (AtLock, w0) = Some (p0', w')" by (rule exI)
    with start nl show ?thesis unfolding res serialised_def by simp
  next
    case left
    from threadRun_step [OF left(3) st]
    have "\<exists>n. threadRun impl reg0 n (AtLock, w0) = Some (p0', w')" by (rule exI)
    with left(1) nl show ?thesis unfolding res serialised_def by simp
  next
    case right
    have fw: "\<not> defaultServerMetricsPromRegistrationMu w"
      using AtLock_blocked [of w impl reg0] st right(1) by auto
    from left_of_free [OF free right(3) fw right(2)] have lf: "left p1" .
    have "threadRun impl reg0 (Suc 0) (AtLock, w) = Some (p0', w')"
      using st right(1) by simp
    with right(3) lf
    have "\<exists>w1 n k. left p1
                   \<and> threadRun impl reg1 n (AtLock, w0) = Some (p1, w1)
                   \<and> threadRun impl reg0 k (AtLock, w1) = Some (p0', w')"
      by blast
    with nl show ?thesis unfolding res serialised_def by simp
  next
    case left_first
    with st left_no_step [of p0 impl reg0 w] show ?thesis by simp
  next
    case right_first
    from threadRun_step [OF right_first(4) st] right_first(2,3)
    have "\<exists>w1 n k. left p1
                   \<and> threadRun impl reg1 n (AtLock, w0) = Some (p1, w1)
                   \<and> threadRun impl reg0 k (AtLock, w1) = Some (p0', w')"
      by blast
    with nl show ?thesis unfolding res serialised_def by simp
  qed
qed

lemma serialised_swap:
  "serialised impl reg0 reg1 w0 (p0, p1, w) = serialised impl reg1 reg0 w0 (p1, p0, w)"
  unfolding serialised_def by auto

lemma scheduleStep_swap:
  "scheduleStep impl reg0 reg1 True (p0, p1, w) =
     (case scheduleStep impl reg1 reg0 False (p1, p0, w) of (q1, q0, w') \<Rightarrow> (q0, q1, w'))"
  by (auto split: option.splits)

lemma serialised_step:
  assumes free: "\<not> defaultServerMetricsPromRegistrationMu w0"
    and inv: "serialised impl reg0 reg1 w0 cfg"
  shows "serialised impl reg0 reg1 w0 (scheduleStep impl reg0 reg1 t cfg)"
proof -
  obtain p0 p1 w where cfg: "cfg = (p0, p1, w)" by (cases cfg)
  show ?thesis
  proof (cases t)
    case False
    with serialised_step0 [OF free inv [unfolded cfg]] cfg show ?thesis by simp
  next
    case True
    from inv cfg have "serialised impl reg1 reg0 w0 (p1, p0, w)"
      using serialised_swap [of impl reg0 reg1 w0 p0 p1 w] by simp
    from serialised_step0 [OF free this]
    have "serialised impl reg1 reg0 w0 (scheduleStep impl reg1 reg0 False (p1, p0, w))" .
    moreover obtain q1 q0 w' where
      q: "scheduleStep impl reg1 reg0 False (p1, p0, w) = (q1, q0, w')"
      by (cases "scheduleStep impl reg1 reg0 False (p1, p0, w)")
    ultimately have "serialised impl reg0 reg1 w0 (q0, q1, w')"
      using serialised_swap [of impl reg0 reg1 w0 q0 q1 w'] by simp
    moreover have "scheduleStep impl reg0 reg1 t cfg = (q0, q1, w')"
      using True cfg q scheduleStep_swap [of impl reg0 reg1 p0 p1 w] by simp
    ultimately show ?thesis by simp
  qed
qed

lemma serialised_run:
  assumes free: "\<not> defaultServerMetricsPromRegistrationMu w0"
  shows "serialised impl reg0 reg1 w0 cfg \<Longrightarrow>
           serialised impl reg0 reg1 w0 (runSchedule impl reg0 reg1 schedule cfg)"
  unfolding runSchedule_def
proof (induction schedule arbitrary: cfg)
  case Nil
  then show ?case by simp
next
  case (Cons t ts)
  from Cons.IH [OF serialised_step [OF free Cons.prems]] show ?case by simp
qed

lemma serialised_start: "serialised impl reg0 reg1 w0 (AtLock, AtLock, w0)"
  by (simp add: serialised_def)

lemma serialised_mutex:
  assumes free: "\<not> defaultServerMetricsPromRegistrationMu w0"
    and inv: "serialised impl reg0 reg1 w0 (p0, p1, w)"
  shows "\<not> (inside p0 \<and> inside p1)
         \<and> (defaultServerMetricsPromRegistrationMu w \<longleftrightarrow> inside p0 \<or> inside p1)"
proof -
  have start: "defaultServerMetricsPromRegistrationMu w0 = inside AtLock" using free by simp
  from inv consider
      (start) "p0 = AtLock" "p1 = AtLock" "w = w0"
    | (left) n where "p1 = AtLock" "threadRun impl reg0 n (AtLock, w0) = Some (p0, w)"
    | (right) n where "p0 = AtLock" "threadRun impl reg1 n (AtLock, w0) = Some (p1, w)"
    | (left_first) w1 n k where "left p0"
        "threadRun impl reg0 n (AtLock, w0) = Some (p0, w1)"
        "threadRun impl reg1 k (AtLock, w1) = Some (p1, w)"
    | (right_first) w1 n k where "left p1"
        "threadRun impl reg1 n (AtLock, w0) = Some (p1, w1)"
        "threadRun impl reg0 k (AtLock, w1) = Some (p0, w)"
    unfolding serialised_def by auto
  then show ?thesis
  proof cases
    case start
    with free show ?thesis by simp
  next
    case left
    from threadRun_mutex [OF left(2) start] left(1) show ?thesis by simp
  next
    case right
    from threadRun_mutex [OF right(2) start] right(1) show ?thesis by simp
  next
    case left_first
    from threadRun_mutex [OF left_first(2) start] left_not_inside [OF left_first(1)]
    have "defaultServerMetricsPromRegistrationMu w1 = inside AtLock" by simp
    from threadRun_mutex [OF left_first(3) this] left_not_inside [OF left_first(1)]
    show ?thesis by simp
  next
    case right_first
    from threadRun_mutex [OF right_first(2) start] left_not_inside [OF right_first(1)]
    have "defaultServerMetricsPromRegistrationMu w1 = inside AtLock" by simp
    from threadRun_mutex [OF right_first(3) this] left_not_inside [OF right_first(1)]
    show ?thesis by simp
  qed
qed

lemma serialised_results:
  assumes free: "\<not> defaultServerMetricsPromRegistrationMu w0"
    and inv: "serialised impl reg0 reg1 w0 (Returned a0 e0, Returned a1 e1, w)"
  shows "(\<exists>w1. RegisterDefaultServerMetricsWithRegisterer impl reg0 w0 = Inr ((a0, e0), w1)
             \<and> RegisterDefaultServerMetricsWithRegisterer impl reg1 w1 = Inr ((a1, e1), w))
         \<or> (\<exists>w1. RegisterDefaultServerMetricsWithRegisterer impl reg1 w0 = Inr ((a1, e1), w1)
             \<and> RegisterDefaultServerMetricsWithRegisterer impl reg0 w1 = Inr ((a0, e0), w))"
proof -
  have start: "defaultServerMetricsPromRegistrationMu w0 = inside AtLock" using free by simp
  from inv consider
      (left_first) w1 n k where
        "threadRun impl reg0 n (AtLock, w0) = Some (Returned a0 e0, w1)"
        "threadRun impl reg1 k (AtLock, w1) = Some (Returned a1 e1, w)"
    | (right_first) w1 n k where
        "threadRun impl reg1 n (AtLock, w0) = Some (Returned a1 e1, w1)"
        "threadRun impl reg0 k (AtLock, w1) = Some (Returned a0 e0, w)"
    unfolding serialised_def by auto
  then show ?thesis
  proof cases
    case left_first
    from threadRun_mutex [OF left_first(1) start]
    have f1: "\<not> defaultServerMetricsPromRegistrationMu w1" by simp
    from run_alone_result [OF free left_first(1)] run_alone_result [OF f1 left_first(2)]
    show ?thesis by simp
  next
    case right_first
    from threadRun_mutex [OF right_first(1) start]
    have f1: "\<not> defaultServerMetricsPromRegistrationMu w1" by simp
    from run_alone_result [OF free right_first(1)] run_alone_result [OF f1 right_first(2)]
    show ?thesis by simp
  qed
qed

lemma two_calls_register_once:
  assumes c1: "RegisterDefaultServerMetricsWithRegisterer impl reg w0 = Inr ((a, None), w1)"
    and c2: "RegisterDefaultServerMetricsWithRegisterer impl reg w1 = Inr ((b, None), w)"
    and fresh: "defaultServerMetricsPromRegistration w0 reg = None"
  shows "\<not> a \<and> b
         \<and> registerAttempts (drop (length (trace w0)) (trace w)) =
             map (\<lambda>c. (c, None)) (instrumentSequence (DefaultServerMetrics w0))"
proof -
  have free: "\<not> defaultServerMetricsPromRegistrationMu w0" by (rule call_returns_free [OF c1])
  from free fresh show ?thesis
  proof (cases rule: call_outcome [where impl = impl])
    case (success w')
    with c1 have eq: "w' = w1" "\<not> a" by simp_all
    note s = success [unfolded eq]
    have rec: "defaultServerMetricsPromRegistration w1 reg \<noteq> None" using s(3) by simp
    from call_already [OF s(4) rec, of impl] c2
    have b: "b" and w: "w = w1\<lparr>trace := trace w1 @ [MuLock, MapLookup reg True, MuUnlock]\<rparr>"
      by simp_all
    have "registerAttempts (drop (length (trace w0)) (trace w)) =
             map (\<lambda>c. (c, None)) (instrumentSequence (DefaultServerMetrics w0))"
      unfolding w using s(5)
      by (simp add: registerAttempts_append registerAttempts_registered)
    with eq(2) b show ?thesis by simp
  next
    case (failure w' e registered c rest bs)
    with c1 show ?thesis by simp
  qed (use c1 in simp_all)
qed

lemma example_schedule_run:
  "runSchedule sharedRegistry 0 0
     [False, True, False, True, False, False, True, False, False, False, False, True, False,
      True, True, True]
     (AtLock, AtLock, freshWorld plainMetrics [])
   = (Returned False None, Returned True None,
      registeredWorld\<lparr>trace := trace registeredWorld @ [MuLock, MapLookup 0 True, MuUnlock]\<rparr>)"
  by (simp add: runSchedule_def example_defs run_defs)

lemma example_schedule_prefix_run:
  "runSchedule sharedRegistry 0 0 [False, True, False, True]
     (AtLock, AtLock, freshWorld plainMetrics [])
   = (AtRegister 0 [], AtLock,
      (freshWorld plainMetrics [])
        \<lparr>defaultServerMetricsPromRegistrationMu := True,
         trace := [MuLock, MapLookup 0 False]\<rparr>)"
  by (simp add: runSchedule_def example_defs run_defs)

text \<open>
  What the calls that return do with the mutex: what such a call adds to the log starts
  with its one lock and ends with its one unlock, and it leaves the mutex free. No call
  unlocks a mutex that is not held.
\<close>

lemma returning_call_unlocks_once:
  assumes ret: "RegisterDefaultServerMetricsWithRegisterer impl reg w = Inr (res, w')"
  shows "\<not> defaultServerMetricsPromRegistrationMu w'
         \<and> (\<exists>evs. trace w' = trace w @ [MuLock] @ evs @ [MuUnlock]
               \<and> MuLock \<notin> set evs \<and> MuUnlock \<notin> set evs)"
proof -
  have free: "\<not> defaultServerMetricsPromRegistrationMu w" by (rule call_returns_free [OF ret])
  show ?thesis
  proof (cases "defaultServerMetricsPromRegistration w reg = None")
    case False
    let ?w' = "w\<lparr>trace := trace w @ [MuLock, MapLookup reg True, MuUnlock]\<rparr>"
    from call_already [OF free False, of impl] ret have w': "w' = ?w'" by simp
    have "trace ?w' = trace w @ [MuLock] @ [MapLookup reg True] @ [MuUnlock]" by simp
    moreover have "MuLock \<notin> set [MapLookup reg True]" "MuUnlock \<notin> set [MapLookup reg True]"
      by simp_all
    ultimately have "\<exists>evs. trace ?w' = trace w @ [MuLock] @ evs @ [MuUnlock]
               \<and> MuLock \<notin> set evs \<and> MuUnlock \<notin> set evs"
      by blast
    with free show ?thesis unfolding w' by simp
  next
    case True
    from free True show ?thesis
    proof (cases rule: call_outcome [where impl = impl])
      case (success w1)
      with ret have eq: "w1 = w'" by simp
      let ?evs = "[MapLookup reg False]
                   @ map (\<lambda>c. RegisterCall reg c None) (instrumentSequence (DefaultServerMetrics w))
                   @ [MapStore reg]"
      from success(5) have "trace w1 = trace w @ [MuLock] @ ?evs @ [MuUnlock]" by simp
      moreover have "MuLock \<notin> set ?evs" "MuUnlock \<notin> set ?evs" by auto
      ultimately have "\<exists>evs. trace w1 = trace w @ [MuLock] @ evs @ [MuUnlock]
               \<and> MuLock \<notin> set evs \<and> MuUnlock \<notin> set evs"
        by blast
      with success(4) show ?thesis unfolding eq by simp
    next
      case (failure w1 e registered c rest bs)
      with ret have eq: "w1 = w'" by simp
      let ?evs = "[MapLookup reg False]
                   @ map (\<lambda>c. RegisterCall reg c None) registered
                   @ [RegisterCall reg c (Some e)]
                   @ map (\<lambda>(c, b). UnregisterCall reg c b) (zip registered bs)"
      from failure(7) have "trace w1 = trace w @ [MuLock] @ ?evs @ [MuUnlock]" by simp
      moreover have "MuLock \<notin> set ?evs" "MuUnlock \<notin> set ?evs" by auto
      ultimately have "\<exists>evs. trace w1 = trace w @ [MuLock] @ evs @ [MuUnlock]
               \<and> MuLock \<notin> set evs \<and> MuUnlock \<notin> set evs"
        by blast
      with failure(6) show ?thesis unfolding eq by simp
    qed (use ret in simp_all)
  qed
qed

lemma call_never_unlocks_free_mutex:
  "RegisterDefaultServerMetricsWithRegisterer impl reg w \<noteq> Inl UnlockOfUnlockedMutex"
proof (cases "defaultServerMetricsPromRegistrationMu w")
  case True
  from call_held [OF True, of impl reg] show ?thesis by simp
next
  case free: False
  show ?thesis
  proof (cases "defaultServerMetricsPromRegistration w reg = None")
    case False
    from call_already [OF free False, of impl] show ?thesis by simp
  next
    case True
    from free True show ?thesis
      by (cases rule: call_outcome [where impl = impl]) simp_all
  qed
qed

text \<open>The calls that panic, run on the registerers that make them panic.\<close>

lemma nil_registerer_run:
  "RegisterDefaultServerMetricsWithRegisterer faultyRegisterers 0 (freshWorld plainMetrics [])
     = Inl (Panic ((freshWorld plainMetrics [])
              \<lparr>defaultServerMetricsPromRegistration := [0 \<mapsto> ()],
               trace := [MuLock, MapLookup 0 False, RegisterPanic 0 startedCounter,
                         MapStore 0, MuUnlock]\<rparr>))"
  by (simp add: example_defs run_defs)

lemma unhashable_registerer_run:
  "RegisterDefaultServerMetricsWithRegisterer faultyRegisterers 1 (freshWorld plainMetrics [])
     = Inl (Panic ((freshWorld plainMetrics [])
              \<lparr>defaultServerMetricsPromRegistrationMu := True,
               trace := [MuLock, MapLookupPanic 1]\<rparr>))"
  by (simp add: example_defs run_defs)

lemma broken_unregister_run:
  "RegisterDefaultServerMetricsWithRegisterer faultyRegisterers 2
       (freshWorld histogramMetrics [foreignCollector])
     = Inl (Panic ((freshWorld histogramMetrics [foreignCollector])
              \<lparr>defaultServerMetricsPromRegistrationMu := True,
               registryHeap := [foreignCollector, startedCounter, handledCounter],
               trace := [MuLock, MapLookup 2 False,
                         RegisterCall 2 startedCounter None, RegisterCall 2 handledCounter None,
                         RegisterCall 2 msgReceivedCounter
                           (Some ''descriptor conflicts with a registered descriptor of the same name''),
                         UnregisterPanic 2 startedCounter]\<rparr>))"
  by (simp add: example_defs run_defs)

subsection \<open>The claims\<close>

text \<open>
  C1, as amended. When a call returns an error, the error is that of the first failed
  registration: the instruments before the failing one in the fixed sequence were
  registered by this call, and before the mutex is released and the error returned the
  call invokes \<open>Unregister\<close> on each of them, in the order of their registration. The
  registerer is not recorded and the mutex is free, so a retry is possible: the next call
  on the same registerer does not block and does not return \<open>alreadyRegistered\<close> but
  starts again with the started counter; it returns unless a method of the registerer
  panics. A registry that honours the contract ends holding what it held before the call
  less the instruments that this call registered and rolled back; so it ends with none of
  the instruments of the metric set when it held none of them before the call.
\<close>

theorem rollback_on_first_failure:
  assumes "RegisterDefaultServerMetricsWithRegisterer impl reg w = Inr ((a, Some e), w')"
  shows "\<exists>registered c rest bs.
           instrumentSequence (DefaultServerMetrics w) = registered @ c # rest
           \<and> length bs = length registered
           \<and> trace w' = trace w @ [MuLock, MapLookup reg False]
                @ map (\<lambda>c. RegisterCall reg c None) registered
                @ [RegisterCall reg c (Some e)]
                @ map (\<lambda>(c, b). UnregisterCall reg c b) (zip registered bs)
                @ [MuUnlock]
           \<and> \<not> a
           \<and> defaultServerMetricsPromRegistration w' = defaultServerMetricsPromRegistration w
           \<and> defaultServerMetricsPromRegistration w' reg = None
           \<and> \<not> defaultServerMetricsPromRegistrationMu w'
           \<and> (\<forall>held. honoursContract (impl reg) held \<longrightarrow>
                 held (registryHeap w') = held (registryHeap w) - set registered
                 \<and> (held (registryHeap w) \<inter> set (instrumentSequence (DefaultServerMetrics w)) = {}
                      \<longrightarrow> held (registryHeap w')
                            \<inter> set (instrumentSequence (DefaultServerMetrics w)) = {}))
           \<and> ((\<exists>err' w'' e1 more.
                  RegisterDefaultServerMetricsWithRegisterer impl reg w' = Inr ((False, err'), w'')
                  \<and> registerAttempts (drop (length (trace w')) (trace w'')) =
                      (serverStartedCounter (DefaultServerMetrics w), e1) # more)
               \<or> (\<exists>w'' u.
                  RegisterDefaultServerMetricsWithRegisterer impl reg w' = Inl (Panic w'')
                  \<and> (RegisterPanic reg u \<in> set (drop (length (trace w')) (trace w''))
                       \<or> UnregisterPanic reg u \<in> set (drop (length (trace w')) (trace w'')))))"
proof -
  have free: "\<not> defaultServerMetricsPromRegistrationMu w" by (rule call_returns_free [OF assms])
  have fresh: "defaultServerMetricsPromRegistration w reg = None"
  proof (rule ccontr)
    assume "defaultServerMetricsPromRegistration w reg \<noteq> None"
    from call_already [OF free this, of impl] assms show False by simp
  qed
  from free fresh show ?thesis
  proof (cases rule: call_outcome [where impl = impl])
    case (success w1)
    with assms show ?thesis by simp
  next
    case (failure w1 e1 registered c rest bs)
    with assms have eq: "e1 = e" "w1 = w'" "\<not> a" by simp_all
    note f = failure [unfolded eq]
    have free': "\<not> defaultServerMetricsPromRegistrationMu w'" by (rule f(6))
    have fresh': "defaultServerMetricsPromRegistration w' reg = None" using f(5) fresh by simp
    have retry: "(\<exists>err' w'' e1 more.
                  RegisterDefaultServerMetricsWithRegisterer impl reg w' = Inr ((False, err'), w'')
                  \<and> registerAttempts (drop (length (trace w')) (trace w'')) =
                      (serverStartedCounter (DefaultServerMetrics w), e1) # more)
               \<or> (\<exists>w'' u.
                  RegisterDefaultServerMetricsWithRegisterer impl reg w' = Inl (Panic w'')
                  \<and> (RegisterPanic reg u \<in> set (drop (length (trace w')) (trace w''))
                       \<or> UnregisterPanic reg u \<in> set (drop (length (trace w')) (trace w''))))"
      using free' fresh'
    proof (cases rule: call_outcome [where impl = impl])
      case (success w2)
      from call_first_attempt [OF success(1) fresh'] success(1) f(4)
      have "\<exists>err' w'' e1 more.
                  RegisterDefaultServerMetricsWithRegisterer impl reg w' = Inr ((False, err'), w'')
                  \<and> registerAttempts (drop (length (trace w')) (trace w'')) =
                      (serverStartedCounter (DefaultServerMetrics w), e1) # more"
        by auto
      then show ?thesis by (rule disjI1)
    next
      case (failure w2 e2 registered2 c2 rest2 bs2)
      from call_first_attempt [OF failure(1) fresh'] failure(1) f(4)
      have "\<exists>err' w'' e1 more.
                  RegisterDefaultServerMetricsWithRegisterer impl reg w' = Inr ((False, err'), w'')
                  \<and> registerAttempts (drop (length (trace w')) (trace w'')) =
                      (serverStartedCounter (DefaultServerMetrics w), e1) # more"
        by auto
      then show ?thesis by (rule disjI1)
    next
      case unhashable
      with f(9) show ?thesis by simp
    next
      case (register_panic w2 registered2 c2 rest2)
      have "RegisterPanic reg c2 \<in> set (drop (length (trace w')) (trace w2))"
        unfolding register_panic(6) by simp
      with register_panic(1)
      have "\<exists>w'' u.
                  RegisterDefaultServerMetricsWithRegisterer impl reg w' = Inl (Panic w'')
                  \<and> (RegisterPanic reg u \<in> set (drop (length (trace w')) (trace w''))
                       \<or> UnregisterPanic reg u \<in> set (drop (length (trace w')) (trace w'')))"
        by blast
      then show ?thesis by (rule disjI2)
    next
      case (unregister_panic w2 e2 registered2 c2 rest2 before u after bs2)
      have "UnregisterPanic reg u \<in> set (drop (length (trace w')) (trace w2))"
        unfolding unregister_panic(8) by simp
      with unregister_panic(1)
      have "\<exists>w'' u.
                  RegisterDefaultServerMetricsWithRegisterer impl reg w' = Inl (Panic w'')
                  \<and> (RegisterPanic reg u \<in> set (drop (length (trace w')) (trace w''))
                       \<or> UnregisterPanic reg u \<in> set (drop (length (trace w')) (trace w'')))"
        by blast
      then show ?thesis by (rule disjI2)
    qed
    have held: "\<forall>held. honoursContract (impl reg) held \<longrightarrow>
                 held (registryHeap w') = held (registryHeap w) - set registered
                 \<and> (held (registryHeap w) \<inter> set (instrumentSequence (DefaultServerMetrics w)) = {}
                      \<longrightarrow> held (registryHeap w')
                            \<inter> set (instrumentSequence (DefaultServerMetrics w)) = {})"
    proof (intro allI impI conjI)
      fix held assume hc: "honoursContract (impl reg) held"
      show 1: "held (registryHeap w') = held (registryHeap w) - set registered"
        by (rule f(8) [OF hc])
      assume "held (registryHeap w) \<inter> set (instrumentSequence (DefaultServerMetrics w)) = {}"
      with 1 show "held (registryHeap w') \<inter> set (instrumentSequence (DefaultServerMetrics w)) = {}"
        by auto
    qed
    show ?thesis
      apply (rule exI [of _ registered], rule exI [of _ c], rule exI [of _ rest],
             rule exI [of _ bs])
      using f(2) f(3) f(7) eq(3) f(5) fresh' free' held retry
      apply (intro conjI)
              apply assumption+
      done
  qed (use assms in simp_all)
qed

theorem rollback_on_first_failure_witness:
  "RegisterDefaultServerMetricsWithRegisterer sharedRegistry 0
       (freshWorld histogramMetrics [foreignCollector])
     = Inr ((False, Some ''descriptor conflicts with a registered descriptor of the same name''),
            (freshWorld histogramMetrics [foreignCollector])
              \<lparr>trace := [MuLock, MapLookup 0 False,
                         RegisterCall 0 startedCounter None, RegisterCall 0 handledCounter None,
                         RegisterCall 0 msgReceivedCounter
                           (Some ''descriptor conflicts with a registered descriptor of the same name''),
                         UnregisterCall 0 startedCounter True, UnregisterCall 0 handledCounter True,
                         MuUnlock]\<rparr>)
   \<and> instrumentSequence histogramMetrics =
       [startedCounter, handledCounter] @ msgReceivedCounter # [msgSentCounter, handlingHistogram]
   \<and> honoursContract (sharedRegistry 0) set
   \<and> set [foreignCollector] \<inter> set (instrumentSequence histogramMetrics) = {}
   \<and> set (registryHeap ((freshWorld histogramMetrics [foreignCollector])
              \<lparr>trace := [MuLock, MapLookup 0 False,
                         RegisterCall 0 startedCounter None, RegisterCall 0 handledCounter None,
                         RegisterCall 0 msgReceivedCounter
                           (Some ''descriptor conflicts with a registered descriptor of the same name''),
                         UnregisterCall 0 startedCounter True, UnregisterCall 0 handledCounter True,
                         MuUnlock]\<rparr>))
       \<inter> set (instrumentSequence histogramMetrics) = {}
   \<and> ((\<exists>err' w'' e1 more.
         RegisterDefaultServerMetricsWithRegisterer sharedRegistry 0
           ((freshWorld histogramMetrics [foreignCollector])
              \<lparr>trace := [MuLock, MapLookup 0 False,
                         RegisterCall 0 startedCounter None, RegisterCall 0 handledCounter None,
                         RegisterCall 0 msgReceivedCounter
                           (Some ''descriptor conflicts with a registered descriptor of the same name''),
                         UnregisterCall 0 startedCounter True, UnregisterCall 0 handledCounter True,
                         MuUnlock]\<rparr>)
           = Inr ((False, err'), w'')
         \<and> registerAttempts (drop 8 (trace w'')) = (startedCounter, e1) # more)
       \<or> (\<exists>w'' u.
         RegisterDefaultServerMetricsWithRegisterer sharedRegistry 0
           ((freshWorld histogramMetrics [foreignCollector])
              \<lparr>trace := [MuLock, MapLookup 0 False,
                         RegisterCall 0 startedCounter None, RegisterCall 0 handledCounter None,
                         RegisterCall 0 msgReceivedCounter
                           (Some ''descriptor conflicts with a registered descriptor of the same name''),
                         UnregisterCall 0 startedCounter True, UnregisterCall 0 handledCounter True,
                         MuUnlock]\<rparr>)
           = Inl (Panic w'')
         \<and> (RegisterPanic 0 u \<in> set (drop 8 (trace w''))
              \<or> UnregisterPanic 0 u \<in> set (drop 8 (trace w'')))))
   \<and> (\<exists>w''. RegisterDefaultServerMetricsWithRegisterer sharedRegistry 0
           (freshWorld histogramMetrics
              (snd (Registerer_Unregister (sharedRegistry 0) foreignCollector [foreignCollector])))
           = Inr ((False, None), w'')
         \<and> registryHeap w'' = [startedCounter, handledCounter, msgReceivedCounter,
                                msgSentCounter, handlingHistogram])"
proof -
  let ?w = "freshWorld histogramMetrics [foreignCollector]"
  let ?w' = "?w\<lparr>trace := [MuLock, MapLookup 0 False,
                         RegisterCall 0 startedCounter None, RegisterCall 0 handledCounter None,
                         RegisterCall 0 msgReceivedCounter
                           (Some ''descriptor conflicts with a registered descriptor of the same name''),
                         UnregisterCall 0 startedCounter True, UnregisterCall 0 handledCounter True,
                         MuUnlock]\<rparr>"
  have hc: "honoursContract (sharedRegistry 0) set"
    by (simp add: sharedRegistry_def nameRegistry_contract)
  have m: "DefaultServerMetrics ?w = histogramMetrics" "registryHeap ?w = [foreignCollector]"
    "length (trace ?w') = 8"
    by (simp_all add: freshWorld_def)
  have seq: "instrumentSequence histogramMetrics =
       [startedCounter, handledCounter] @ msgReceivedCounter # [msgSentCounter, handlingHistogram]"
    by (simp add: instrumentSequence_def histogramMetrics_def plainMetrics_def)
  have none: "set [foreignCollector] \<inter> set (instrumentSequence histogramMetrics) = {}"
    unfolding seq by (simp add: example_defs)
  from rollback_on_first_failure [OF conflict_run]
  have kept: "\<forall>held. honoursContract (sharedRegistry 0) held \<longrightarrow>
                (held [foreignCollector] \<inter> set (instrumentSequence histogramMetrics) = {}
                   \<longrightarrow> held (registryHeap ?w') \<inter> set (instrumentSequence histogramMetrics) = {})"
    and retry: "(\<exists>err' w'' e1 more.
         RegisterDefaultServerMetricsWithRegisterer sharedRegistry 0 ?w' = Inr ((False, err'), w'')
         \<and> registerAttempts (drop 8 (trace w'')) =
              (serverStartedCounter histogramMetrics, e1) # more)
       \<or> (\<exists>w'' u.
         RegisterDefaultServerMetricsWithRegisterer sharedRegistry 0 ?w' = Inl (Panic w'')
         \<and> (RegisterPanic 0 u \<in> set (drop 8 (trace w''))
              \<or> UnregisterPanic 0 u \<in> set (drop 8 (trace w''))))"
    unfolding m by blast+
  from kept [rule_format, OF hc none]
  have gone: "set (registryHeap ?w') \<inter> set (instrumentSequence histogramMetrics) = {}" .
  have sc: "serverStartedCounter histogramMetrics = startedCounter"
    by (simp add: histogramMetrics_def plainMetrics_def)
  have again: "\<exists>w''. RegisterDefaultServerMetricsWithRegisterer sharedRegistry 0
           (freshWorld histogramMetrics
              (snd (Registerer_Unregister (sharedRegistry 0) foreignCollector [foreignCollector])))
           = Inr ((False, None), w'')
         \<and> registryHeap w'' = [startedCounter, handledCounter, msgReceivedCounter,
                                msgSentCounter, handlingHistogram]"
    by (simp add: example_defs run_defs)
  from conflict_run seq hc none gone retry [unfolded sc] again
  show ?thesis by (intro conjI) (assumption+)
qed

text \<open>
  All-or-nothing fails for a registry that holds instruments of the metric set before the
  call. Registerer \<open>1\<close> is a second handle of the registry that registerer \<open>0\<close> has
  filled: the call through it fails on the started counter, which the registry holds
  already, has nothing to roll back, and returns the error with the four instruments of
  the metric set registered.
\<close>

theorem registry_keeps_held_instruments_counterexample:
  "RegisterDefaultServerMetricsWithRegisterer sharedRegistry 0 (freshWorld plainMetrics [])
     = Inr ((False, None), registeredWorld)
   \<and> RegisterDefaultServerMetricsWithRegisterer sharedRegistry 1 registeredWorld
     = Inr ((False, Some ''duplicate metrics collector registration attempted''),
            registeredWorld
              \<lparr>trace := trace registeredWorld
                 @ [MuLock, MapLookup 1 False,
                    RegisterCall 1 startedCounter
                      (Some ''duplicate metrics collector registration attempted''),
                    MuUnlock]\<rparr>)
   \<and> registryHeap (registeredWorld
              \<lparr>trace := trace registeredWorld
                 @ [MuLock, MapLookup 1 False,
                    RegisterCall 1 startedCounter
                      (Some ''duplicate metrics collector registration attempted''),
                    MuUnlock]\<rparr>)
       = [serverStartedCounter plainMetrics, serverHandledCounter plainMetrics,
          serverStreamMsgReceived plainMetrics, serverStreamMsgSent plainMetrics]"
  by (simp add: example_defs run_defs)

text \<open>
  C2. Registration is idempotent per registerer. When the registerer is recorded in the
  registration map (and the mutex is free, so that the call can proceed), the call returns
  \<open>alreadyRegistered = true\<close> and a \<open>nil\<close> error, and the world it leaves is the world it
  found but for the log, which gains the lock, the lookup and the unlock: no call of
  \<open>Register\<close> or \<open>Unregister\<close> is made, the memory of the registries and the
  registration map are unchanged. In particular this is what a second call does after a
  first call on the same registerer has succeeded.
\<close>

theorem already_registered_call_is_idle:
  "(\<not> defaultServerMetricsPromRegistrationMu w
      \<and> defaultServerMetricsPromRegistration w reg \<noteq> None \<longrightarrow>
      RegisterDefaultServerMetricsWithRegisterer impl reg w =
        Inr ((True, None), w\<lparr>trace := trace w @ [MuLock, MapLookup reg True, MuUnlock]\<rparr>))
   \<and> (RegisterDefaultServerMetricsWithRegisterer impl reg w = Inr ((False, None), w1) \<longrightarrow>
      RegisterDefaultServerMetricsWithRegisterer impl reg w1 =
        Inr ((True, None), w1\<lparr>trace := trace w1 @ [MuLock, MapLookup reg True, MuUnlock]\<rparr>))"
proof (intro conjI impI)
  assume "\<not> defaultServerMetricsPromRegistrationMu w
      \<and> defaultServerMetricsPromRegistration w reg \<noteq> None"
  then show "RegisterDefaultServerMetricsWithRegisterer impl reg w =
        Inr ((True, None), w\<lparr>trace := trace w @ [MuLock, MapLookup reg True, MuUnlock]\<rparr>)"
    using call_already [of w reg impl] by simp
next
  assume first: "RegisterDefaultServerMetricsWithRegisterer impl reg w = Inr ((False, None), w1)"
  have free: "\<not> defaultServerMetricsPromRegistrationMu w" by (rule call_returns_free [OF first])
  have fresh: "defaultServerMetricsPromRegistration w reg = None"
  proof (rule ccontr)
    assume "defaultServerMetricsPromRegistration w reg \<noteq> None"
    from call_already [OF free this, of impl] first show False by simp
  qed
  from free fresh have "\<not> defaultServerMetricsPromRegistrationMu w1
    \<and> defaultServerMetricsPromRegistration w1 reg \<noteq> None"
  proof (cases rule: call_outcome [where impl = impl])
    case (success w')
    with first show ?thesis by simp
  next
    case (failure w' e registered c rest bs)
    with first show ?thesis by simp
  qed (use first in simp_all)
  then have "\<not> defaultServerMetricsPromRegistrationMu w1"
    and "defaultServerMetricsPromRegistration w1 reg \<noteq> None"
    by simp_all
  then show "RegisterDefaultServerMetricsWithRegisterer impl reg w1 =
        Inr ((True, None), w1\<lparr>trace := trace w1 @ [MuLock, MapLookup reg True, MuUnlock]\<rparr>)"
    by (rule call_already)
qed

theorem already_registered_call_is_idle_witness:
  "\<not> defaultServerMetricsPromRegistrationMu registeredWorld
   \<and> defaultServerMetricsPromRegistration registeredWorld 0 \<noteq> None
   \<and> RegisterDefaultServerMetricsWithRegisterer sharedRegistry 0 (freshWorld plainMetrics [])
       = Inr ((False, None), registeredWorld)
   \<and> RegisterDefaultServerMetricsWithRegisterer sharedRegistry 0 registeredWorld
       = Inr ((True, None),
              registeredWorld\<lparr>trace := trace registeredWorld @ [MuLock, MapLookup 0 True, MuUnlock]\<rparr>)"
  using already_registered_call_is_idle
          [of "freshWorld plainMetrics []" 0 sharedRegistry registeredWorld]
        first_registration_run registeredWorld_facts
  by simp

text \<open>
  C3. A call on a registerer that is not recorded tries the instruments one at a time in
  the fixed order: started counter, handled counter, counter of received stream
  messages, counter of sent stream messages and last the histogram, which takes part
  only when it is enabled (and present). The calls of \<open>Register\<close> that the call logs are
  the first \<open>n\<close> instruments of this sequence, each with the result \<open>nil\<close>, followed on
  failure by the one failed attempt on the next instrument: no instrument is tried before
  all the earlier ones have succeeded, and nothing is tried after a failure.
\<close>

theorem instruments_registered_in_fixed_order:
  assumes "RegisterDefaultServerMetricsWithRegisterer impl reg w = Inr ((a, err), w')"
    and "defaultServerMetricsPromRegistration w reg = None"
    and "m = DefaultServerMetrics w"
    and "order = [serverStartedCounter m, serverHandledCounter m, serverStreamMsgReceived m,
                  serverStreamMsgSent m]
                 @ (if serverHandledHistogramEnabled m \<and> serverHandledHistogram m \<noteq> None
                    then [the (serverHandledHistogram m)] else [])"
  shows "\<exists>n. n \<le> length order
           \<and> registerAttempts (drop (length (trace w)) (trace w')) =
               map (\<lambda>c. (c, None)) (take n order)
               @ (case err of None \<Rightarrow> [] | Some e \<Rightarrow> [(order ! n, Some e)])
           \<and> (err = None \<longrightarrow> n = length order)
           \<and> (err \<noteq> None \<longrightarrow> n < length order)"
proof -
  have order: "order = instrumentSequence (DefaultServerMetrics w)"
    using assms(3,4) by (simp add: instrumentSequence_def)
  show ?thesis unfolding order by (rule call_attempts [OF assms(1,2)])
qed

theorem instruments_registered_in_fixed_order_witness:
  "RegisterDefaultServerMetricsWithRegisterer sharedRegistry 0
       (freshWorld histogramMetrics [foreignCollector])
     = Inr ((False, Some ''descriptor conflicts with a registered descriptor of the same name''),
            (freshWorld histogramMetrics [foreignCollector])
              \<lparr>trace := [MuLock, MapLookup 0 False,
                         RegisterCall 0 startedCounter None, RegisterCall 0 handledCounter None,
                         RegisterCall 0 msgReceivedCounter
                           (Some ''descriptor conflicts with a registered descriptor of the same name''),
                         UnregisterCall 0 startedCounter True, UnregisterCall 0 handledCounter True,
                         MuUnlock]\<rparr>)
   \<and> defaultServerMetricsPromRegistration (freshWorld histogramMetrics [foreignCollector]) 0 = None
   \<and> (\<exists>n. n \<le> length [startedCounter, handledCounter, msgReceivedCounter, msgSentCounter,
                          handlingHistogram]
        \<and> [(startedCounter, None), (handledCounter, None),
            (msgReceivedCounter,
             Some ''descriptor conflicts with a registered descriptor of the same name'')] =
            map (\<lambda>c. (c, None))
              (take n [startedCounter, handledCounter, msgReceivedCounter, msgSentCounter,
                       handlingHistogram])
            @ [([startedCounter, handledCounter, msgReceivedCounter, msgSentCounter,
                 handlingHistogram] ! n,
                Some ''descriptor conflicts with a registered descriptor of the same name'')]
        \<and> n < length [startedCounter, handledCounter, msgReceivedCounter, msgSentCounter,
                        handlingHistogram])"
proof -
  have fresh: "defaultServerMetricsPromRegistration (freshWorld histogramMetrics [foreignCollector]) 0 = None"
    by (simp add: freshWorld_def)
  have m: "histogramMetrics = DefaultServerMetrics (freshWorld histogramMetrics [foreignCollector])"
    by (simp add: freshWorld_def)
  have order: "[startedCounter, handledCounter, msgReceivedCounter, msgSentCounter, handlingHistogram]
      = [serverStartedCounter histogramMetrics, serverHandledCounter histogramMetrics,
         serverStreamMsgReceived histogramMetrics, serverStreamMsgSent histogramMetrics]
        @ (if serverHandledHistogramEnabled histogramMetrics
              \<and> serverHandledHistogram histogramMetrics \<noteq> None
           then [the (serverHandledHistogram histogramMetrics)] else [])"
    by (simp add: histogramMetrics_def plainMetrics_def)
  from instruments_registered_in_fixed_order [OF conflict_run fresh m order] conflict_run fresh
  show ?thesis by (simp add: freshWorld_def)
qed

text \<open>
  C4. On a fully successful call the histogram is the fifth instrument registered when
  the metric set has it enabled: the calls of \<open>Register\<close> are the four counters and then
  the histogram instrument \<open>h\<close> of the metric set itself, so with the bucket boundaries it
  was made with, all with the result \<open>nil\<close>, and a registry that honours the contract
  ends holding these five in addition to what it held. When the histogram is not
  enabled, the calls of \<open>Register\<close> are exactly the four counters and the registry gains
  exactly these four.
\<close>

theorem histogram_registered_fifth_when_enabled:
  assumes "RegisterDefaultServerMetricsWithRegisterer impl reg w = Inr ((False, None), w')"
    and "m = DefaultServerMetrics w"
  shows "(serverHandledHistogramEnabled m \<and> serverHandledHistogram m = Some h \<longrightarrow>
            registerAttempts (drop (length (trace w)) (trace w')) =
              [(serverStartedCounter m, None), (serverHandledCounter m, None),
               (serverStreamMsgReceived m, None), (serverStreamMsgSent m, None), (h, None)]
            \<and> (\<forall>held. honoursContract (impl reg) held \<longrightarrow>
                  held (registryHeap w') =
                    held (registryHeap w)
                    \<union> {serverStartedCounter m, serverHandledCounter m,
                        serverStreamMsgReceived m, serverStreamMsgSent m, h}))
         \<and> (\<not> serverHandledHistogramEnabled m \<longrightarrow>
            registerAttempts (drop (length (trace w)) (trace w')) =
              [(serverStartedCounter m, None), (serverHandledCounter m, None),
               (serverStreamMsgReceived m, None), (serverStreamMsgSent m, None)]
            \<and> (\<forall>held. honoursContract (impl reg) held \<longrightarrow>
                  held (registryHeap w') =
                    held (registryHeap w)
                    \<union> {serverStartedCounter m, serverHandledCounter m,
                        serverStreamMsgReceived m, serverStreamMsgSent m}))"
proof -
  note fresh = success_is_fresh [OF assms(1)]
  from call_attempts [OF assms(1) fresh]
  have att: "registerAttempts (drop (length (trace w)) (trace w')) =
               map (\<lambda>c. (c, None)) (instrumentSequence m)"
    using assms(2) by auto
  have held: "held (registryHeap w') = held (registryHeap w) \<union> set (instrumentSequence m)"
    if "honoursContract (impl reg) held" for held
    using call_success_held [OF assms(1) that] assms(2) by simp
  show ?thesis
  proof (intro conjI impI allI)
    assume on: "serverHandledHistogramEnabled m \<and> serverHandledHistogram m = Some h"
    then have seq: "instrumentSequence m =
        [serverStartedCounter m, serverHandledCounter m, serverStreamMsgReceived m,
         serverStreamMsgSent m, h]"
      by (simp add: instrumentSequence_def)
    show "registerAttempts (drop (length (trace w)) (trace w')) =
              [(serverStartedCounter m, None), (serverHandledCounter m, None),
               (serverStreamMsgReceived m, None), (serverStreamMsgSent m, None), (h, None)]"
      using att seq by simp
    fix held assume "honoursContract (impl reg) held"
    from held [OF this] seq
    show "held (registryHeap w') = held (registryHeap w)
                    \<union> {serverStartedCounter m, serverHandledCounter m,
                        serverStreamMsgReceived m, serverStreamMsgSent m, h}"
      by simp
  next
    assume off: "\<not> serverHandledHistogramEnabled m"
    then have seq: "instrumentSequence m =
        [serverStartedCounter m, serverHandledCounter m, serverStreamMsgReceived m,
         serverStreamMsgSent m]"
      by (simp add: instrumentSequence_def)
    show "registerAttempts (drop (length (trace w)) (trace w')) =
              [(serverStartedCounter m, None), (serverHandledCounter m, None),
               (serverStreamMsgReceived m, None), (serverStreamMsgSent m, None)]"
      using att seq by simp
    fix held assume "honoursContract (impl reg) held"
    from held [OF this] seq
    show "held (registryHeap w') = held (registryHeap w)
                    \<union> {serverStartedCounter m, serverHandledCounter m,
                        serverStreamMsgReceived m, serverStreamMsgSent m}"
      by simp
  qed
qed

theorem histogram_registered_fifth_when_enabled_witness:
  "RegisterDefaultServerMetricsWithRegisterer sharedRegistry 0 (freshWorld histogramMetrics [])
     = Inr ((False, None),
            registeredWith histogramMetrics
              [startedCounter, handledCounter, msgReceivedCounter, msgSentCounter,
               handlingHistogram])
   \<and> serverHandledHistogramEnabled histogramMetrics
   \<and> serverHandledHistogram histogramMetrics =
       Some (HistogramVec ''grpc_server_handling_seconds''
               [''grpc_type'', ''grpc_service'', ''grpc_method'']
               [0.005, 0.01, 0.025, 0.05, 0.1, 0.25, 0.5, 1, 2.5, 5, 10])
   \<and> honoursContract (sharedRegistry 0) set
   \<and> registerAttempts (trace (registeredWith histogramMetrics
              [startedCounter, handledCounter, msgReceivedCounter, msgSentCounter,
               handlingHistogram]))
       = [(startedCounter, None), (handledCounter, None), (msgReceivedCounter, None),
          (msgSentCounter, None),
          (HistogramVec ''grpc_server_handling_seconds''
               [''grpc_type'', ''grpc_service'', ''grpc_method'']
               [0.005, 0.01, 0.025, 0.05, 0.1, 0.25, 0.5, 1, 2.5, 5, 10], None)]
   \<and> set (registryHeap (registeredWith histogramMetrics
              [startedCounter, handledCounter, msgReceivedCounter, msgSentCounter,
               handlingHistogram]))
       = {startedCounter, handledCounter, msgReceivedCounter, msgSentCounter,
          HistogramVec ''grpc_server_handling_seconds''
               [''grpc_type'', ''grpc_service'', ''grpc_method'']
               [0.005, 0.01, 0.025, 0.05, 0.1, 0.25, 0.5, 1, 2.5, 5, 10]}
   \<and> RegisterDefaultServerMetricsWithRegisterer sharedRegistry 0 (freshWorld plainMetrics [])
     = Inr ((False, None),
            registeredWith plainMetrics
              [startedCounter, handledCounter, msgReceivedCounter, msgSentCounter])
   \<and> \<not> serverHandledHistogramEnabled plainMetrics
   \<and> registerAttempts (trace (registeredWith plainMetrics
              [startedCounter, handledCounter, msgReceivedCounter, msgSentCounter]))
       = [(startedCounter, None), (handledCounter, None), (msgReceivedCounter, None),
          (msgSentCounter, None)]
   \<and> set (registryHeap (registeredWith plainMetrics
              [startedCounter, handledCounter, msgReceivedCounter, msgSentCounter]))
       = {startedCounter, handledCounter, msgReceivedCounter, msgSentCounter}"
proof -
  let ?wh = "registeredWith histogramMetrics
              [startedCounter, handledCounter, msgReceivedCounter, msgSentCounter,
               handlingHistogram]"
  let ?wp = "registeredWith plainMetrics
              [startedCounter, handledCounter, msgReceivedCounter, msgSentCounter]"
  have hc: "honoursContract (sharedRegistry 0) set"
    by (simp add: sharedRegistry_def nameRegistry_contract)
  have mh: "histogramMetrics = DefaultServerMetrics (freshWorld histogramMetrics [])"
    and mp: "plainMetrics = DefaultServerMetrics (freshWorld plainMetrics [])"
    by (simp_all add: freshWorld_def)
  have on: "serverHandledHistogramEnabled histogramMetrics
      \<and> serverHandledHistogram histogramMetrics = Some handlingHistogram"
    and off: "\<not> serverHandledHistogramEnabled plainMetrics"
    by (simp_all add: histogramMetrics_def plainMetrics_def)
  have fields: "serverStartedCounter histogramMetrics = startedCounter"
    "serverHandledCounter histogramMetrics = handledCounter"
    "serverStreamMsgReceived histogramMetrics = msgReceivedCounter"
    "serverStreamMsgSent histogramMetrics = msgSentCounter"
    "serverStartedCounter plainMetrics = startedCounter"
    "serverHandledCounter plainMetrics = handledCounter"
    "serverStreamMsgReceived plainMetrics = msgReceivedCounter"
    "serverStreamMsgSent plainMetrics = msgSentCounter"
    by (simp_all add: histogramMetrics_def plainMetrics_def)
  have start: "trace (freshWorld m []) = []" "registryHeap (freshWorld m []) = []" for m
    by (simp_all add: freshWorld_def)
  from histogram_registered_fifth_when_enabled [OF histogram_run mh, of handlingHistogram] on
  have h1: "registerAttempts (trace ?wh) =
              [(startedCounter, None), (handledCounter, None), (msgReceivedCounter, None),
               (msgSentCounter, None), (handlingHistogram, None)]"
    and h2: "\<forall>held. honoursContract (sharedRegistry 0) held \<longrightarrow>
               held (registryHeap ?wh) = held [] \<union> {startedCounter, handledCounter,
                 msgReceivedCounter, msgSentCounter, handlingHistogram}"
    unfolding fields start by simp_all
  from histogram_registered_fifth_when_enabled [OF plain_run mp] off
  have p1: "registerAttempts (trace ?wp) =
              [(startedCounter, None), (handledCounter, None), (msgReceivedCounter, None),
               (msgSentCounter, None)]"
    and p2: "\<forall>held. honoursContract (sharedRegistry 0) held \<longrightarrow>
               held (registryHeap ?wp) = held [] \<union> {startedCounter, handledCounter,
                 msgReceivedCounter, msgSentCounter}"
    unfolding fields start by simp_all
  from h2 [rule_format, OF hc] have h3: "set (registryHeap ?wh) = {startedCounter, handledCounter,
                 msgReceivedCounter, msgSentCounter, handlingHistogram}"
    by simp
  from p2 [rule_format, OF hc] have p3: "set (registryHeap ?wp) = {startedCounter, handledCounter,
                 msgReceivedCounter, msgSentCounter}"
    by simp
  have hh: "HistogramVec ''grpc_server_handling_seconds''
               [''grpc_type'', ''grpc_service'', ''grpc_method'']
               [0.005, 0.01, 0.025, 0.05, 0.1, 0.25, 0.5, 1, 2.5, 5, 10] = handlingHistogram"
    by (simp add: handlingHistogram_def)
  show ?thesis
    unfolding hh using histogram_run plain_run on off hc h1 h3 p1 p3 by simp
qed

text \<open>
  C5. The registration map is to gain an entry only when all the instruments have been
  registered. The code breaks this when \<open>Register\<close> panics. With the \<open>nil\<close>
  registerer, in a world where nothing is recorded, the first call of \<open>Register\<close> (line
  74) panics. The
  panic runs the deferred function with \<open>err\<close> still \<open>nil\<close>, so the function takes the
  branch of the success: it stores the registerer in the map (line 70) and unlocks (line
  71); then the panic goes on to the caller. The map has gained the entry of the registerer
  although no call of \<open>Register\<close> has returned and the registry holds nothing, and the next
  call on the registerer returns \<open>alreadyRegistered = true\<close> without registering
  anything. On the calls that return, the map changes only on success
  (\<open>call_record\<close>), and no sequence of calls removes an entry (\<open>performAll_record\<close>).
\<close>

theorem panicking_register_records_registerer:
  "defaultServerMetricsPromRegistration (freshWorld plainMetrics []) 0 = None
   \<and> RegisterDefaultServerMetricsWithRegisterer faultyRegisterers 0 (freshWorld plainMetrics [])
     = Inl (Panic ((freshWorld plainMetrics [])
              \<lparr>defaultServerMetricsPromRegistration := [0 \<mapsto> ()],
               trace := [MuLock, MapLookup 0 False, RegisterPanic 0 startedCounter,
                         MapStore 0, MuUnlock]\<rparr>))
   \<and> defaultServerMetricsPromRegistration
         ((freshWorld plainMetrics [])
              \<lparr>defaultServerMetricsPromRegistration := [0 \<mapsto> ()],
               trace := [MuLock, MapLookup 0 False, RegisterPanic 0 startedCounter,
                         MapStore 0, MuUnlock]\<rparr>) 0 = Some ()
   \<and> registryHeap
         ((freshWorld plainMetrics [])
              \<lparr>defaultServerMetricsPromRegistration := [0 \<mapsto> ()],
               trace := [MuLock, MapLookup 0 False, RegisterPanic 0 startedCounter,
                         MapStore 0, MuUnlock]\<rparr>) = []
   \<and> registerAttempts
         (trace ((freshWorld plainMetrics [])
              \<lparr>defaultServerMetricsPromRegistration := [0 \<mapsto> ()],
               trace := [MuLock, MapLookup 0 False, RegisterPanic 0 startedCounter,
                         MapStore 0, MuUnlock]\<rparr>)) = []
   \<and> RegisterDefaultServerMetricsWithRegisterer faultyRegisterers 0
         ((freshWorld plainMetrics [])
              \<lparr>defaultServerMetricsPromRegistration := [0 \<mapsto> ()],
               trace := [MuLock, MapLookup 0 False, RegisterPanic 0 startedCounter,
                         MapStore 0, MuUnlock]\<rparr>)
     = Inr ((True, None),
            (freshWorld plainMetrics [])
              \<lparr>defaultServerMetricsPromRegistration := [0 \<mapsto> ()],
               trace := [MuLock, MapLookup 0 False, RegisterPanic 0 startedCounter,
                         MapStore 0, MuUnlock, MuLock, MapLookup 0 True, MuUnlock]\<rparr>)"
proof -
  let ?w' = "(freshWorld plainMetrics [])
              \<lparr>defaultServerMetricsPromRegistration := [0 \<mapsto> ()],
               trace := [MuLock, MapLookup 0 False, RegisterPanic 0 startedCounter,
                         MapStore 0, MuUnlock]\<rparr>"
  have 1: "defaultServerMetricsPromRegistration (freshWorld plainMetrics []) 0 = None"
    by (simp add: freshWorld_def)
  have 3: "defaultServerMetricsPromRegistration ?w' 0 = Some ()" by simp
  have 4: "registryHeap ?w' = []" by (simp add: freshWorld_def)
  have 5: "registerAttempts (trace ?w') = []" by simp
  have free: "\<not> defaultServerMetricsPromRegistrationMu ?w'" by (simp add: freshWorld_def)
  have rec: "defaultServerMetricsPromRegistration ?w' 0 \<noteq> None" by simp
  have 6: "RegisterDefaultServerMetricsWithRegisterer faultyRegisterers 0 ?w'
     = Inr ((True, None),
            (freshWorld plainMetrics [])
              \<lparr>defaultServerMetricsPromRegistration := [0 \<mapsto> ()],
               trace := [MuLock, MapLookup 0 False, RegisterPanic 0 startedCounter,
                         MapStore 0, MuUnlock, MuLock, MapLookup 0 True, MuUnlock]\<rparr>)"
    using call_already [OF free rec, of faultyRegisterers] by simp
  from 1 nil_registerer_run 3 4 5 6 show ?thesis by (intro conjI)
qed

text \<open>
  C6. Two goroutines that call the function concurrently, each in steps of its own (the
  lock, the lookup in the map, each call of the registerer, the store into the map, the
  unlock), interleaved by an arbitrary schedule. A goroutine that runs alone runs the
  function (\<open>run_alone\<close>, \<open>run_alone_result\<close>). Whatever the schedule, the configuration
  reached is one of a serial execution: one call has run alone from the start, or one call
  has left the function after its unlock (it has returned, or a panic of \<open>Register\<close>
  has gone through it) and the other has run alone from the world the first one left. So never
  are both goroutines between their lock and their unlock, and the mutex is held exactly
  while one of them is; when both have returned, the results and the world are those of
  the two calls made one after the other, in one order or the other. For two calls on the
  same registerer, not recorded before, that both return without error, one of them
  registered the instruments and the other returned \<open>alreadyRegistered\<close>, and the log
  holds one registration of each instrument, no more.
\<close>

theorem concurrent_calls_are_serialised:
  assumes "\<not> defaultServerMetricsPromRegistrationMu w0"
    and "runSchedule impl reg0 reg1 schedule (AtLock, AtLock, w0) = (p0, p1, w)"
  shows "serialised impl reg0 reg1 w0 (p0, p1, w)
         \<and> \<not> (inside p0 \<and> inside p1)
         \<and> (defaultServerMetricsPromRegistrationMu w \<longleftrightarrow> inside p0 \<or> inside p1)
         \<and> (p0 = Returned a0 e0 \<and> p1 = Returned a1 e1 \<longrightarrow>
              (\<exists>w1. RegisterDefaultServerMetricsWithRegisterer impl reg0 w0 = Inr ((a0, e0), w1)
                  \<and> RegisterDefaultServerMetricsWithRegisterer impl reg1 w1 = Inr ((a1, e1), w))
              \<or> (\<exists>w1. RegisterDefaultServerMetricsWithRegisterer impl reg1 w0 = Inr ((a1, e1), w1)
                  \<and> RegisterDefaultServerMetricsWithRegisterer impl reg0 w1 = Inr ((a0, e0), w)))
         \<and> (p0 = Returned a0 None \<and> p1 = Returned a1 None \<and> reg1 = reg0
              \<and> defaultServerMetricsPromRegistration w0 reg0 = None \<longrightarrow>
              a0 \<noteq> a1
              \<and> registerAttempts (drop (length (trace w0)) (trace w)) =
                  map (\<lambda>c. (c, None)) (instrumentSequence (DefaultServerMetrics w0)))"
proof -
  have inv: "serialised impl reg0 reg1 w0 (p0, p1, w)"
    using serialised_run [OF assms(1) serialised_start, of impl reg0 reg1 schedule] assms(2)
    by simp
  note mx = serialised_mutex [OF assms(1) inv]
  have res: "(\<exists>w1. RegisterDefaultServerMetricsWithRegisterer impl reg0 w0 = Inr ((a0, e0), w1)
                  \<and> RegisterDefaultServerMetricsWithRegisterer impl reg1 w1 = Inr ((a1, e1), w))
              \<or> (\<exists>w1. RegisterDefaultServerMetricsWithRegisterer impl reg1 w0 = Inr ((a1, e1), w1)
                  \<and> RegisterDefaultServerMetricsWithRegisterer impl reg0 w1 = Inr ((a0, e0), w))"
    if "p0 = Returned a0 e0 \<and> p1 = Returned a1 e1"
    using serialised_results [OF assms(1), of impl reg0 reg1 a0 e0 a1 e1 w] inv that by simp
  have once: "a0 \<noteq> a1
              \<and> registerAttempts (drop (length (trace w0)) (trace w)) =
                  map (\<lambda>c. (c, None)) (instrumentSequence (DefaultServerMetrics w0))"
    if h: "p0 = Returned a0 None \<and> p1 = Returned a1 None \<and> reg1 = reg0
              \<and> defaultServerMetricsPromRegistration w0 reg0 = None"
  proof -
    from h have fresh: "defaultServerMetricsPromRegistration w0 reg0 = None"
      and same: "reg1 = reg0" by simp_all
    from serialised_results [OF assms(1), of impl reg0 reg1 a0 None a1 None w] inv h
    consider
        (a) w1 where "RegisterDefaultServerMetricsWithRegisterer impl reg0 w0 = Inr ((a0, None), w1)"
          "RegisterDefaultServerMetricsWithRegisterer impl reg0 w1 = Inr ((a1, None), w)"
      | (b) w1 where "RegisterDefaultServerMetricsWithRegisterer impl reg0 w0 = Inr ((a1, None), w1)"
          "RegisterDefaultServerMetricsWithRegisterer impl reg0 w1 = Inr ((a0, None), w)"
      by auto
    then show ?thesis
    proof cases
      case a
      from two_calls_register_once [OF a fresh] show ?thesis by auto
    next
      case b
      from two_calls_register_once [OF b fresh] show ?thesis by auto
    qed
  qed
  from inv mx res once show ?thesis by blast
qed

theorem concurrent_calls_are_serialised_witness:
  "\<not> defaultServerMetricsPromRegistrationMu (freshWorld plainMetrics [])
   \<and> defaultServerMetricsPromRegistration (freshWorld plainMetrics []) 0 = None
   \<and> runSchedule sharedRegistry 0 0 [False, True, False, True]
        (AtLock, AtLock, freshWorld plainMetrics [])
      = (AtRegister 0 [], AtLock,
         (freshWorld plainMetrics [])
           \<lparr>defaultServerMetricsPromRegistrationMu := True,
            trace := [MuLock, MapLookup 0 False]\<rparr>)
   \<and> inside (AtRegister 0 ([] :: collector list)) \<and> \<not> inside (AtLock :: collector pc)
   \<and> runSchedule sharedRegistry 0 0
        [False, True, False, True, False, False, True, False, False, False, False, True, False,
         True, True, True]
        (AtLock, AtLock, freshWorld plainMetrics [])
      = (Returned False None, Returned True None,
         registeredWorld\<lparr>trace := trace registeredWorld @ [MuLock, MapLookup 0 True, MuUnlock]\<rparr>)
   \<and> \<not> defaultServerMetricsPromRegistrationMu
         (registeredWorld\<lparr>trace := trace registeredWorld @ [MuLock, MapLookup 0 True, MuUnlock]\<rparr>)
   \<and> ((\<exists>w1. RegisterDefaultServerMetricsWithRegisterer sharedRegistry 0
                (freshWorld plainMetrics []) = Inr ((False, None), w1)
             \<and> RegisterDefaultServerMetricsWithRegisterer sharedRegistry 0 w1
                = Inr ((True, None),
                       registeredWorld\<lparr>trace := trace registeredWorld
                                          @ [MuLock, MapLookup 0 True, MuUnlock]\<rparr>))
        \<or> (\<exists>w1. RegisterDefaultServerMetricsWithRegisterer sharedRegistry 0
                (freshWorld plainMetrics []) = Inr ((True, None), w1)
             \<and> RegisterDefaultServerMetricsWithRegisterer sharedRegistry 0 w1
                = Inr ((False, None),
                       registeredWorld\<lparr>trace := trace registeredWorld
                                          @ [MuLock, MapLookup 0 True, MuUnlock]\<rparr>)))
   \<and> registerAttempts
        (trace (registeredWorld\<lparr>trace := trace registeredWorld
                                  @ [MuLock, MapLookup 0 True, MuUnlock]\<rparr>))
      = map (\<lambda>c. (c, None)) (instrumentSequence plainMetrics)"
proof -
  let ?init = "freshWorld plainMetrics []"
  let ?final = "registeredWorld\<lparr>trace := trace registeredWorld @ [MuLock, MapLookup 0 True, MuUnlock]\<rparr>"
  have free: "\<not> defaultServerMetricsPromRegistrationMu ?init"
    and fresh: "defaultServerMetricsPromRegistration ?init 0 = None"
    and start: "trace ?init = []" "DefaultServerMetrics ?init = plainMetrics"
    by (simp_all add: freshWorld_def)
  note mid = concurrent_calls_are_serialised [OF free example_schedule_prefix_run]
  note fin = concurrent_calls_are_serialised [OF free example_schedule_run,
      of False None True None]
  from mid have m: "inside (AtRegister 0 ([] :: collector list))"
    "\<not> inside (AtLock :: collector pc)"
    by simp_all
  from fin have f1: "\<not> defaultServerMetricsPromRegistrationMu ?final" by simp
  from fin have f2: "(\<exists>w1. RegisterDefaultServerMetricsWithRegisterer sharedRegistry 0 ?init
                              = Inr ((False, None), w1)
             \<and> RegisterDefaultServerMetricsWithRegisterer sharedRegistry 0 w1
                = Inr ((True, None), ?final))
        \<or> (\<exists>w1. RegisterDefaultServerMetricsWithRegisterer sharedRegistry 0 ?init
                              = Inr ((True, None), w1)
             \<and> RegisterDefaultServerMetricsWithRegisterer sharedRegistry 0 w1
                = Inr ((False, None), ?final))"
    by blast
  from fin fresh have f3: "registerAttempts (drop (length (trace ?init)) (trace ?final))
      = map (\<lambda>c. (c, None)) (instrumentSequence (DefaultServerMetrics ?init))"
    by blast
  then have f3': "registerAttempts (trace ?final) = map (\<lambda>c. (c, None)) (instrumentSequence plainMetrics)"
    unfolding start by simp
  from free fresh example_schedule_prefix_run m example_schedule_run f1 f2 f3'
  show ?thesis by (intro conjI)
qed

text \<open>
  C7. \<open>Register\<close> acts on the default metric set: it hands \<open>DefaultServerMetrics\<close> and
  the server to \<open>InitializeMetrics\<close> and changes nothing but the series of the
  instruments. With \<open>InitializeMetrics\<close> as the specification describes it, for every
  (service, method, call type) triple of the server's service table the series of the
  started counter, and the series of the handled counter for every status code, exist
  after the call; a series that existed keeps its value (the increment is zero) and a
  series that did not exist has the value \<open>0\<close>. So when no call has been observed yet,
  every expected series exists with the value \<open>0\<close>.
\<close>

theorem register_creates_zero_series:
  assumes "(svc, ms) \<in> set server" and "(mth, ct) \<in> set ms"
    and "labels = \<lparr>call_type = ct, service = svc, method_name = mth\<rparr>"
    and "m = DefaultServerMetrics w"
    and "w' = Register (InitializeMetrics allCodes) server w"
  shows "w' = w\<lparr>metricSeries := metricSeries w'\<rparr>
         \<and> metricSeries w' (serverStartedCounter m) (labels, None) =
             Some (case metricSeries w (serverStartedCounter m) (labels, None) of
                     None \<Rightarrow> 0 | Some v \<Rightarrow> v)
         \<and> (\<forall>code \<in> set allCodes.
               metricSeries w' (serverHandledCounter m) (labels, Some code) =
                 Some (case metricSeries w (serverHandledCounter m) (labels, Some code) of
                         None \<Rightarrow> 0 | Some v \<Rightarrow> v))
         \<and> (\<forall>c k v. metricSeries w c k = Some v \<longrightarrow> metricSeries w' c k = Some v)
         \<and> (\<forall>c k. metricSeries w c k = None \<longrightarrow>
               metricSeries w' c k = None \<or> metricSeries w' c k = Some 0)"
proof -
  let ?T = "\<Union>labels \<in> set (triples server). expectedSeries allCodes m labels"
  have ser: "metricSeries w' = zeroed ?T (metricSeries w)"
    using assms(4,5) by (simp add: Register_def InitializeMetrics_zeroed)
  have mem: "labels \<in> set (triples server)"
    using triples_member [OF assms(1,2)] assms(3) by simp
  have st: "(serverStartedCounter m, (labels, None)) \<in> ?T"
    using mem by (auto simp: expectedSeries_def)
  have hd: "(serverHandledCounter m, (labels, Some code)) \<in> ?T" if "code \<in> set allCodes" for code
    using mem that by (auto simp: expectedSeries_def)
  have 1: "w' = w\<lparr>metricSeries := metricSeries w'\<rparr>"
    using assms(5) by (simp add: Register_def)
  have 2: "metricSeries w' (serverStartedCounter m) (labels, None) =
             Some (case metricSeries w (serverStartedCounter m) (labels, None) of
                     None \<Rightarrow> 0 | Some v \<Rightarrow> v)"
    unfolding ser using st by (simp add: zeroed_def)
  have 3: "\<forall>code \<in> set allCodes.
               metricSeries w' (serverHandledCounter m) (labels, Some code) =
                 Some (case metricSeries w (serverHandledCounter m) (labels, Some code) of
                         None \<Rightarrow> 0 | Some v \<Rightarrow> v)"
    unfolding ser using hd by (simp add: zeroed_def)
  have 4: "\<forall>c k v. metricSeries w c k = Some v \<longrightarrow> metricSeries w' c k = Some v"
    unfolding ser by (simp add: zeroed_def)
  have 5: "\<forall>c k. metricSeries w c k = None \<longrightarrow>
               metricSeries w' c k = None \<or> metricSeries w' c k = Some 0"
    unfolding ser by (simp add: zeroed_def)
  from 1 2 3 4 5 show ?thesis by (intro conjI)
qed

theorem register_creates_zero_series_witness:
  "(''pkg.Service'', [(''UnaryA'', Unary), (''StreamB'', ServerStream)]) \<in> set exampleServer
   \<and> (''UnaryA'', Unary) \<in> set [(''UnaryA'', Unary), (''StreamB'', ServerStream)]
   \<and> (''StreamB'', ServerStream) \<in> set [(''UnaryA'', Unary), (''StreamB'', ServerStream)]
   \<and> metricSeries (freshWorld plainMetrics []) = (\<lambda>c. Map.empty)
   \<and> metricSeries (Register (InitializeMetrics exampleCodes) exampleServer (freshWorld plainMetrics []))
        startedCounter
        (\<lparr>call_type = Unary, service = ''pkg.Service'', method_name = ''UnaryA''\<rparr>, None) = Some 0
   \<and> metricSeries (Register (InitializeMetrics exampleCodes) exampleServer (freshWorld plainMetrics []))
        handledCounter
        (\<lparr>call_type = Unary, service = ''pkg.Service'', method_name = ''UnaryA''\<rparr>, Some ''OK'') = Some 0
   \<and> metricSeries (Register (InitializeMetrics exampleCodes) exampleServer (freshWorld plainMetrics []))
        startedCounter
        (\<lparr>call_type = ServerStream, service = ''pkg.Service'', method_name = ''StreamB''\<rparr>, None) = Some 0
   \<and> metricSeries (Register (InitializeMetrics exampleCodes) exampleServer (freshWorld plainMetrics []))
        handledCounter
        (\<lparr>call_type = ServerStream, service = ''pkg.Service'', method_name = ''StreamB''\<rparr>,
         Some ''Unknown'') = Some 0"
proof -
  let ?w = "freshWorld plainMetrics []"
  let ?w' = "Register (InitializeMetrics exampleCodes) exampleServer ?w"
  have svc: "(''pkg.Service'', [(''UnaryA'', Unary), (''StreamB'', ServerStream)]) \<in> set exampleServer"
    by (simp add: exampleServer_def)
  have a: "(''UnaryA'', Unary) \<in> set [(''UnaryA'', Unary), (''StreamB'', ServerStream)]"
    and b: "(''StreamB'', ServerStream) \<in> set [(''UnaryA'', Unary), (''StreamB'', ServerStream)]"
    by simp_all
  have m: "plainMetrics = DefaultServerMetrics ?w" and empty: "metricSeries ?w = (\<lambda>c. Map.empty)"
    by (simp_all add: freshWorld_def)
  have f: "serverStartedCounter plainMetrics = startedCounter"
    "serverHandledCounter plainMetrics = handledCounter"
    by (simp_all add: plainMetrics_def)
  have codes: "''OK'' \<in> set exampleCodes" "''Unknown'' \<in> set exampleCodes"
    by (simp_all add: exampleCodes_def)
  note ra = register_creates_zero_series [OF svc a refl m refl, of exampleCodes, unfolded f empty]
  note rb = register_creates_zero_series [OF svc b refl m refl, of exampleCodes, unfolded f empty]
  from ra have a1: "metricSeries ?w' startedCounter
        (\<lparr>call_type = Unary, service = ''pkg.Service'', method_name = ''UnaryA''\<rparr>, None) = Some 0"
    by simp
  from ra codes(1) have a2: "metricSeries ?w' handledCounter
        (\<lparr>call_type = Unary, service = ''pkg.Service'', method_name = ''UnaryA''\<rparr>, Some ''OK'') = Some 0"
    by simp
  from rb have b1: "metricSeries ?w' startedCounter
        (\<lparr>call_type = ServerStream, service = ''pkg.Service'', method_name = ''StreamB''\<rparr>, None) = Some 0"
    by simp
  from rb codes(2) have b2: "metricSeries ?w' handledCounter
        (\<lparr>call_type = ServerStream, service = ''pkg.Service'', method_name = ''StreamB''\<rparr>,
         Some ''Unknown'') = Some 0"
    by simp
  from svc a b empty a1 a2 b1 b2 show ?thesis by (intro conjI)
qed

text \<open>
  C8. Every path is to release the mutex exactly once before the function is left. The
  code breaks this on two paths that a panic cuts short, each of which is left with the
  mutex held, so that every later call blocks. With a registerer whose
  dynamic type is not hashable, the index of the map (line 49) panics after the lock
  (line 47) and before the \<open>defer\<close> statement (line 59): no unlock is left to run. With
  a registry whose \<open>Unregister\<close> panics, and an instrument whose name is taken so that
  the third registration fails, the loop of the deferred function (line 62) is left
  before the unlock of line 65. On the calls that return, the mutex is released exactly
  once (\<open>returning_call_unlocks_once\<close>), and no call unlocks twice
  (\<open>call_never_unlocks_free_mutex\<close>).
\<close>

theorem panic_leaves_mutex_held:
  "\<not> defaultServerMetricsPromRegistrationMu (freshWorld plainMetrics [])
   \<and> RegisterDefaultServerMetricsWithRegisterer faultyRegisterers 1 (freshWorld plainMetrics [])
     = Inl (Panic ((freshWorld plainMetrics [])
              \<lparr>defaultServerMetricsPromRegistrationMu := True,
               trace := [MuLock, MapLookupPanic 1]\<rparr>))
   \<and> defaultServerMetricsPromRegistrationMu
        ((freshWorld plainMetrics [])
              \<lparr>defaultServerMetricsPromRegistrationMu := True,
               trace := [MuLock, MapLookupPanic 1]\<rparr>)
   \<and> RegisterDefaultServerMetricsWithRegisterer sharedRegistry 0
        ((freshWorld plainMetrics [])
              \<lparr>defaultServerMetricsPromRegistrationMu := True,
               trace := [MuLock, MapLookupPanic 1]\<rparr>)
     = Inl Deadlock
   \<and> \<not> defaultServerMetricsPromRegistrationMu (freshWorld histogramMetrics [foreignCollector])
   \<and> RegisterDefaultServerMetricsWithRegisterer faultyRegisterers 2
       (freshWorld histogramMetrics [foreignCollector])
     = Inl (Panic ((freshWorld histogramMetrics [foreignCollector])
              \<lparr>defaultServerMetricsPromRegistrationMu := True,
               registryHeap := [foreignCollector, startedCounter, handledCounter],
               trace := [MuLock, MapLookup 2 False,
                         RegisterCall 2 startedCounter None, RegisterCall 2 handledCounter None,
                         RegisterCall 2 msgReceivedCounter
                           (Some ''descriptor conflicts with a registered descriptor of the same name''),
                         UnregisterPanic 2 startedCounter]\<rparr>))
   \<and> defaultServerMetricsPromRegistrationMu
        ((freshWorld histogramMetrics [foreignCollector])
              \<lparr>defaultServerMetricsPromRegistrationMu := True,
               registryHeap := [foreignCollector, startedCounter, handledCounter],
               trace := [MuLock, MapLookup 2 False,
                         RegisterCall 2 startedCounter None, RegisterCall 2 handledCounter None,
                         RegisterCall 2 msgReceivedCounter
                           (Some ''descriptor conflicts with a registered descriptor of the same name''),
                         UnregisterPanic 2 startedCounter]\<rparr>)"
proof -
  let ?w1 = "(freshWorld plainMetrics [])
              \<lparr>defaultServerMetricsPromRegistrationMu := True,
               trace := [MuLock, MapLookupPanic 1]\<rparr>"
  have 1: "\<not> defaultServerMetricsPromRegistrationMu (freshWorld plainMetrics [])"
    and 5: "\<not> defaultServerMetricsPromRegistrationMu (freshWorld histogramMetrics [foreignCollector])"
    by (simp_all add: freshWorld_def)
  have 3: "defaultServerMetricsPromRegistrationMu ?w1" by simp
  have 4: "RegisterDefaultServerMetricsWithRegisterer sharedRegistry 0 ?w1 = Inl Deadlock"
    by (rule call_held [OF 3])
  have 7: "defaultServerMetricsPromRegistrationMu
        ((freshWorld histogramMetrics [foreignCollector])
              \<lparr>defaultServerMetricsPromRegistrationMu := True,
               registryHeap := [foreignCollector, startedCounter, handledCounter],
               trace := [MuLock, MapLookup 2 False,
                         RegisterCall 2 startedCounter None, RegisterCall 2 handledCounter None,
                         RegisterCall 2 msgReceivedCounter
                           (Some ''descriptor conflicts with a registered descriptor of the same name''),
                         UnregisterPanic 2 startedCounter]\<rparr>)"
    by simp
  from 1 unhashable_registerer_run 3 4 5 broken_unregister_run 7 show ?thesis by (intro conjI)
qed



text \<open>
  C10. The two results exclude each other. When a call returns \<open>alreadyRegistered = true\<close>
  the error is \<open>nil\<close> and the call has made no call of \<open>Register\<close> or \<open>Unregister\<close>: its
  part of the log is the lock, the lookup that found the registerer, and the unlock, and
  the memory of the registries and the registration map are as before. When a call
  returns an error, \<open>alreadyRegistered\<close> is \<open>false\<close>.
\<close>

theorem results_exclude_each_other:
  assumes "RegisterDefaultServerMetricsWithRegisterer impl reg w = Inr ((a, err), w')"
  shows "(a \<longrightarrow> err = None
              \<and> trace w' = trace w @ [MuLock, MapLookup reg True, MuUnlock]
              \<and> registryHeap w' = registryHeap w
              \<and> defaultServerMetricsPromRegistration w' = defaultServerMetricsPromRegistration w)
         \<and> (err \<noteq> None \<longrightarrow> \<not> a)"
proof -
  have free: "\<not> defaultServerMetricsPromRegistrationMu w" by (rule call_returns_free [OF assms])
  show ?thesis
  proof (cases "defaultServerMetricsPromRegistration w reg = None")
    case False
    from call_already [OF free False, of impl] assms show ?thesis by auto
  next
    case True
    from free True show ?thesis
    proof (cases rule: call_outcome [where impl = impl])
      case (success w')
      with assms show ?thesis by simp
    next
      case (failure w' e registered c rest bs)
      with assms show ?thesis by simp
    qed (use assms in simp_all)
  qed
qed

theorem results_exclude_each_other_witness:
  "RegisterDefaultServerMetricsWithRegisterer sharedRegistry 0 registeredWorld
     = Inr ((True, None),
            registeredWorld\<lparr>trace := trace registeredWorld @ [MuLock, MapLookup 0 True, MuUnlock]\<rparr>)
   \<and> RegisterDefaultServerMetricsWithRegisterer sharedRegistry 0
         (freshWorld histogramMetrics [foreignCollector])
     = Inr ((False, Some ''descriptor conflicts with a registered descriptor of the same name''),
            (freshWorld histogramMetrics [foreignCollector])
              \<lparr>trace := [MuLock, MapLookup 0 False,
                         RegisterCall 0 startedCounter None, RegisterCall 0 handledCounter None,
                         RegisterCall 0 msgReceivedCounter
                           (Some ''descriptor conflicts with a registered descriptor of the same name''),
                         UnregisterCall 0 startedCounter True, UnregisterCall 0 handledCounter True,
                         MuUnlock]\<rparr>)
   \<and> registryHeap (registeredWorld\<lparr>trace := trace registeredWorld @ [MuLock, MapLookup 0 True, MuUnlock]\<rparr>)
       = registryHeap registeredWorld"
proof -
  have idle: "RegisterDefaultServerMetricsWithRegisterer sharedRegistry 0 registeredWorld
     = Inr ((True, None),
            registeredWorld\<lparr>trace := trace registeredWorld @ [MuLock, MapLookup 0 True, MuUnlock]\<rparr>)"
    using call_already [of registeredWorld 0 sharedRegistry] registeredWorld_facts by simp
  from results_exclude_each_other [OF idle] results_exclude_each_other [OF conflict_run]
    idle conflict_run
  show ?thesis by simp
qed

end
